theory Spec2Isabelle
  imports Complex_Main
begin

text \<open>
  The engine core of SpaceHuggers (LittleJS): the tile collision grid with its region test
  and raycast, the \<open>EngineObject\<close> hierarchy (\<open>addChild\<close>, \<open>removeChild\<close>,
  \<open>destroy\<close>), the per-tick \<open>update\<close> of an object and \<open>engineUpdateObjects\<close>.
\<close>

section \<open>Numbers and vectors\<close>

text \<open>
  JavaScript numbers are modelled as mathematical reals (rounding of IEEE doubles is not
  modelled); a \<open>Vector2\<close> is a pair of reals and is treated as a value.  Whole-number
  loop counters and cell coordinates are integers.
\<close>

type_synonym vec2 = "real \<times> real"

text \<open>\<open>abs\<close>, \<open>sign\<close> and \<open>clamp\<close> of the utility library; \<open>sign 0 = 1\<close>.\<close>

definition abs_js :: "'a::linordered_idom \<Rightarrow> 'a" where
  "abs_js a = (if a < 0 then - a else a)"

definition sign_js :: "'a::linordered_idom \<Rightarrow> 'a" where
  "sign_js a = (if a < 0 then - 1 else 1)"

definition clamp :: "real \<Rightarrow> real \<Rightarrow> real \<Rightarrow> real" where
  "clamp v mx mn = (if v < mn then mn else if v > mx then mx else v)"

text \<open>
  \<open>v|0\<close>: truncation towards zero followed by the wrap into the signed 32-bit range.
\<close>

definition toInt32 :: "real \<Rightarrow> int" where
  "toInt32 r =
     (let t = (if r < 0 then - \<lfloor>- r\<rfloor> else \<lfloor>r\<rfloor>);
          m = t mod 2 ^ 32
      in if m \<ge> 2 ^ 31 then m - 2 ^ 32 else m)"

text \<open>\<open>Vector2.int\<close>, \<open>Vector2.rotate\<close> and \<open>Vector2.arrayCheck\<close>.\<close>

definition int_vec :: "vec2 \<Rightarrow> int \<times> int" where
  "int_vec p = (toInt32 (fst p), toInt32 (snd p))"

definition rotate_vec :: "vec2 \<Rightarrow> real \<Rightarrow> vec2" where
  "rotate_vec p a =
     (let c = cos a; s = sin a
      in (fst p * c - snd p * s, fst p * s + snd p * c))"

definition arrayCheck :: "vec2 \<Rightarrow> int \<times> int \<Rightarrow> bool" where
  "arrayCheck p arraySize \<longleftrightarrow>
     fst p \<ge> 0 \<and> snd p \<ge> 0 \<and> fst p < of_int (fst arraySize) \<and> snd p < of_int (snd arraySize)"

definition isOverlapping :: "vec2 \<Rightarrow> vec2 \<Rightarrow> vec2 \<Rightarrow> vec2 \<Rightarrow> bool" where
  "isOverlapping pA sA pB sB \<longleftrightarrow>
     abs_js (fst pA - fst pB) * 2 < fst sA + fst sB \<and>
     abs_js (snd pA - snd pB) * 2 < snd sA + snd sB"


section \<open>Tile collision grid\<close>

text \<open>
  \<open>tileCollision\<close> is a JavaScript array of collision codes and \<open>tileCollisionSize\<close>
  its width and height.  The array is a map from indices to values: reading an index that
  was never written yields \<open>undefined\<close>, modelled as \<open>None\<close>, and a write stores the value
  at its index whatever the index is.
\<close>

record grid =
  tileCollisionSize :: "int \<times> int"
  tileCollision :: "int \<Rightarrow> int option"

definition initTileCollision :: "int \<times> int \<Rightarrow> grid" where
  "initTileCollision sz =
     \<lparr> tileCollisionSize = sz,
       tileCollision = (\<lambda>i. if 0 \<le> i \<and> i < fst sz * snd sz then Some 0 else None) \<rparr>"

text \<open>A value is truthy when it is a nonzero number; \<open>undefined\<close> is falsy.\<close>

definition truthy :: "int option \<Rightarrow> bool" where
  "truthy v = (case v of None \<Rightarrow> False | Some n \<Rightarrow> n \<noteq> 0)"

text \<open>The index expression \<open>(pos.y|0)*tileCollisionSize.x+pos.x|0\<close>.\<close>

definition tile_index :: "grid \<Rightarrow> vec2 \<Rightarrow> int" where
  "tile_index g pos =
     toInt32 (of_int (toInt32 (snd pos) * fst (tileCollisionSize g)) + fst pos)"

definition setTileCollisionData :: "grid \<Rightarrow> vec2 \<Rightarrow> int \<Rightarrow> grid" where
  "setTileCollisionData g pos d =
     (if arrayCheck pos (tileCollisionSize g)
      then g\<lparr>tileCollision := (tileCollision g)(tile_index g pos \<mapsto> d)\<rparr>
      else g)"

definition getTileCollisionData :: "grid \<Rightarrow> vec2 \<Rightarrow> int option" where
  "getTileCollisionData g pos =
     (if arrayCheck pos (tileCollisionSize g)
      then tileCollision g (tile_index g pos)
      else Some 0)"

text \<open>
  The optional \<open>object\<close> argument of the tile queries is represented by its tile
  predicate (\<open>collideWithTile\<close>, respectively \<open>collideWithTileRaycast\<close>); the
  predicates of the base class accept positive codes.
\<close>

type_synonym tile_hook = "int \<Rightarrow> int \<times> int \<Rightarrow> bool"

definition collideWithTile :: tile_hook where
  "collideWithTile d pos \<longleftrightarrow> d > 0"

definition collideWithTileRaycast :: tile_hook where
  "collideWithTileRaycast d pos \<longleftrightarrow> d > 0"

text \<open>
  \<open>tileCollisionTest\<close> reads the array directly at \<open>y*tileCollisionSize.x + x\<close> for
  every cell of the scanned box.
\<close>

definition tile_test_cell :: "grid \<Rightarrow> tile_hook option \<Rightarrow> int \<Rightarrow> int \<Rightarrow> bool" where
  "tile_test_cell g object x y =
     (let tileData = tileCollision g (y * fst (tileCollisionSize g) + x)
      in truthy tileData \<and>
         (case object of None \<Rightarrow> True | Some f \<Rightarrow> f (the tileData) (x, y)))"

definition tileCollisionTest :: "grid \<Rightarrow> vec2 \<Rightarrow> vec2 \<Rightarrow> tile_hook option \<Rightarrow> bool" where
  "tileCollisionTest g pos sz object =
     (let minX = toInt32 (fst pos - fst sz * (1/2));
          minY = toInt32 (snd pos - snd sz * (1/2));
          maxX = toInt32 (fst pos + fst sz * (1/2));
          maxY = toInt32 (snd pos + snd sz * (1/2))
      in list_ex (\<lambda>y. list_ex (\<lambda>x. tile_test_cell g object x y) [minX..maxX]) [minY..maxY])"

text \<open>
  \<open>tileCollisionRaycast\<close>: the loop state is the current cell and the error term.
  One pass of the loop body either returns or continues with \<open>ray_step\<close>.  The loop has
  no bound of its own, so it is a partial function: \<open>None\<close> stands for not returning,
  \<open>Some None\<close> for returning no hit and \<open>Some (Some p)\<close> for the hit point \<open>p\<close>.
\<close>

type_synonym ray_state = "int \<times> int \<times> int"

definition ray_hit :: "grid \<Rightarrow> tile_hook option \<Rightarrow> ray_state \<Rightarrow> bool" where
  "ray_hit g object s =
     (case s of (x, y, e) \<Rightarrow>
        let tileData = getTileCollisionData g (of_int x, of_int y)
        in truthy tileData \<and>
           (case object of Some f \<Rightarrow> f (the tileData) (x, y) | None \<Rightarrow> the tileData > 0))"

definition ray_at_end :: "int \<times> int \<Rightarrow> ray_state \<Rightarrow> bool" where
  "ray_at_end posEnd s = (case s of (x, y, e) \<Rightarrow> x = fst posEnd \<and> y = snd posEnd)"

definition ray_step :: "int \<Rightarrow> int \<Rightarrow> int \<Rightarrow> int \<Rightarrow> ray_state \<Rightarrow> ray_state" where
  "ray_step dx dy sx sy s =
     (case s of (x, y, e) \<Rightarrow>
        let e2 = 2 * e;
            e1 = (if e2 \<ge> dy then e + dy else e);
            x1 = (if e2 \<ge> dy then x + sx else x);
            e3 = (if e2 \<le> dx then e1 + dx else e1);
            y1 = (if e2 \<le> dx then y + sy else y)
        in (x1, y1, e3))"

definition cell_center :: "ray_state \<Rightarrow> vec2" where
  "cell_center s = (case s of (x, y, e) \<Rightarrow> (of_int x + 1/2, of_int y + 1/2))"

partial_function (option) ray_loop ::
  "grid \<Rightarrow> tile_hook option \<Rightarrow> int \<times> int \<Rightarrow> int \<times> int \<Rightarrow> int \<times> int \<Rightarrow> ray_state
     \<Rightarrow> vec2 option option" where
  "ray_loop g object posEnd d sg s =
     (if ray_hit g object s then Some (Some (cell_center s))
      else if ray_at_end posEnd s then Some None
      else ray_loop g object posEnd d sg (ray_step (fst d) (snd d) (fst sg) (snd sg) s))"

definition ray_init :: "vec2 \<Rightarrow> vec2 \<Rightarrow> (int \<times> int) \<times> (int \<times> int) \<times> (int \<times> int) \<times> ray_state" where
  "ray_init posStart posEnd =
     (let pS = int_vec posStart;
          pE = int_vec posEnd;
          posDelta = (fst pE - fst pS, snd pE - snd pS);
          dx = abs_js (fst posDelta);
          dy = - abs_js (snd posDelta);
          sx = sign_js (fst posDelta);
          sy = sign_js (snd posDelta)
      in (pE, (dx, dy), (sx, sy), (fst pS, snd pS, dx + dy)))"

definition tileCollisionRaycast ::
  "grid \<Rightarrow> vec2 \<Rightarrow> vec2 \<Rightarrow> tile_hook option \<Rightarrow> vec2 option option" where
  "tileCollisionRaycast g posStart posEnd object =
     (case ray_init posStart posEnd of (pE, d, sg, s) \<Rightarrow> ray_loop g object pE d sg s)"


text \<open>
  The cells the walk visits: \<open>ray_walk d sg s k\<close> is the loop state after \<open>k\<close> passes
  that did not return, and \<open>ray_visit posStart posEnd k\<close> the same for the initial
  state of a cast.  \<open>ray_rx\<close> and \<open>ray_ry\<close> count the remaining steps on each axis and
  \<open>ray_inv\<close> is the loop invariant tying the error term to them.
\<close>

definition ray_walk :: "int \<times> int \<Rightarrow> int \<times> int \<Rightarrow> ray_state \<Rightarrow> nat \<Rightarrow> ray_state" where
  "ray_walk d sg s k = ((ray_step (fst d) (snd d) (fst sg) (snd sg)) ^^ k) s"

definition ray_visit :: "vec2 \<Rightarrow> vec2 \<Rightarrow> nat \<Rightarrow> ray_state" where
  "ray_visit posStart posEnd k =
     (case ray_init posStart posEnd of (pE, d, sg, s) \<Rightarrow> ray_walk d sg s k)"

definition ray_rx :: "int \<times> int \<Rightarrow> int \<times> int \<Rightarrow> ray_state \<Rightarrow> int" where
  "ray_rx pE sg s = (case s of (x, y, e) \<Rightarrow> fst sg * (fst pE - x))"

definition ray_ry :: "int \<times> int \<Rightarrow> int \<times> int \<Rightarrow> ray_state \<Rightarrow> int" where
  "ray_ry pE sg s = (case s of (x, y, e) \<Rightarrow> snd sg * (snd pE - y))"

definition ray_inv :: "int \<times> int \<Rightarrow> int \<times> int \<Rightarrow> int \<times> int \<Rightarrow> ray_state \<Rightarrow> bool" where
  "ray_inv pE d sg s \<longleftrightarrow>
     (fst sg = 1 \<or> fst sg = - 1) \<and> (snd sg = 1 \<or> snd sg = - 1) \<and>
     0 \<le> ray_rx pE sg s \<and> ray_rx pE sg s \<le> fst d \<and>
     0 \<le> ray_ry pE sg s \<and> ray_ry pE sg s \<le> - snd d \<and>
     snd (snd s) = fst d + snd d - fst d * ray_ry pE sg s - snd d * ray_rx pE sg s"

text \<open>Example grids.\<close>

definition grid_row_6 :: grid where
  "grid_row_6 = setTileCollisionData (initTileCollision (6, 1)) (3, 0) 1"

definition grid_3x3 :: grid where
  "grid_3x3 = setTileCollisionData (initTileCollision (3, 3)) (2, 0) 1"

definition grid_3x2 :: grid where
  "grid_3x2 = setTileCollisionData (initTileCollision (3, 2)) (1, 1) 1"

definition grid_row_6_ladder :: grid where
  "grid_row_6_ladder = setTileCollisionData grid_row_6 (1, 0) (- 1)"


text \<open>
  A grid with exactly one solid cell: \<open>cell\<close> is the only cell whose code, as the
  bounds-checked read returns it, is positive (the other cells are empty or hold a
  negative code).  \<open>ray_visits posStart posEnd cell\<close>: the walk of the cast visits
  \<open>cell\<close>, at the end cell or before reaching it.  \<open>between_on_axis\<close>: a cell lying
  strictly between the cells of two points that share a row or a column of cells.
\<close>

definition single_solid :: "grid \<Rightarrow> int \<times> int \<Rightarrow> bool" where
  "single_solid g cell \<longleftrightarrow>
     (\<forall>x y. (case getTileCollisionData g (of_int x, of_int y) of
                None \<Rightarrow> False | Some c \<Rightarrow> 0 < c) \<longleftrightarrow> (x, y) = cell)"

definition ray_cell :: "ray_state \<Rightarrow> int \<times> int" where
  "ray_cell s = (case s of (x, y, e) \<Rightarrow> (x, y))"

definition ray_visits :: "vec2 \<Rightarrow> vec2 \<Rightarrow> int \<times> int \<Rightarrow> bool" where
  "ray_visits posStart posEnd cell \<longleftrightarrow>
     (\<exists>k. (\<forall>j<k. \<not> ray_at_end (int_vec posEnd) (ray_visit posStart posEnd j))
          \<and> ray_cell (ray_visit posStart posEnd k) = cell)"

definition between_on_axis :: "int \<times> int \<Rightarrow> int \<times> int \<Rightarrow> int \<times> int \<Rightarrow> bool" where
  "between_on_axis a b cell \<longleftrightarrow>
     (snd a = snd b \<and> snd cell = snd a
        \<and> (fst a < fst cell \<and> fst cell < fst b \<or> fst b < fst cell \<and> fst cell < fst a))
   \<or> (fst a = fst b \<and> fst cell = fst a
        \<and> (snd a < snd cell \<and> snd cell < snd b \<or> snd b < snd cell \<and> snd cell < snd a))"


section \<open>Entities\<close>

text \<open>
  An \<open>EngineObject\<close> is a record of the fields the update, collision and hierarchy code
  reads or writes (the render-only fields are left out).  Objects live in a store, a list
  indexed by object identity, so that two references to one object see the same fields.
  \<open>groundObject\<close> holds nothing, a reference to an object, or the boolean the tile
  collision stores in it.
\<close>

datatype ground = GroundNone | GroundObject nat | GroundFlag bool

record entity =
  pos :: vec2
  sizeObj :: vec2
  angle :: real
  velocity :: vec2
  angleVelocity :: real
  mass :: real
  damping :: real
  angleDamping :: real
  elasticity :: real
  friction :: real
  gravityScale :: real
  collideSolidObjects :: bool
  isSolid :: bool
  collideTiles :: bool
  destroyed :: bool
  mirror :: bool
  parent :: "nat option"
  children :: "nat list"
  localPos :: vec2
  localAngle :: real
  groundObject :: ground

record world =
  objects :: "entity list"
  engineObjects :: "nat list"
  engineCollideObjects :: "nat list"
  tiles :: grid
  frame :: nat

definition gravity :: real where
  "gravity = - 1/100"

definition maxObjectSpeed :: real where
  "maxObjectSpeed = 1"

definition obj :: "world \<Rightarrow> nat \<Rightarrow> entity" where
  "obj w i = objects w ! i"

definition modify :: "world \<Rightarrow> nat \<Rightarrow> (entity \<Rightarrow> entity) \<Rightarrow> world" where
  "modify w i f = w\<lparr>objects := (objects w)[i := f (objects w ! i)]\<rparr>"

text \<open>
  The fields a new \<open>EngineObject\<close> gets from the constructor with the default
  arguments, at a given position.
\<close>

definition newObject :: "vec2 \<Rightarrow> entity" where
  "newObject p =
     \<lparr> pos = p, sizeObj = (999/1000, 999/1000), angle = 0, velocity = (0, 0),
       angleVelocity = 0, mass = 1, damping = 99/100, angleDamping = 99/100,
       elasticity = 0, friction = 8/10, gravityScale = 1, collideSolidObjects = False,
       isSolid = False, collideTiles = True, destroyed = False, mirror = False,
       parent = None, children = [], localPos = (0, 0), localAngle = 0,
       groundObject = GroundNone \<rparr>"

definition getMirrorSign :: "entity \<Rightarrow> real \<Rightarrow> real" where
  "getMirrorSign this s = (if mirror this then - s else s)"

definition ground_truthy :: "ground \<Rightarrow> bool" where
  "ground_truthy gr = (case gr of GroundNone \<Rightarrow> False | GroundObject o' \<Rightarrow> True | GroundFlag b \<Rightarrow> b)"


subsection \<open>Hierarchy\<close>

text \<open>
  \<open>ASSERT\<close> is the empty function in this build, so \<open>addChild\<close> and \<open>removeChild\<close>
  run whatever their arguments are.  \<open>splice(indexOf(child), 1)\<close> removes the first
  occurrence of the child, and the last element when the child is absent
  (\<open>indexOf\<close> is then -1).
\<close>

definition addChild :: "world \<Rightarrow> nat \<Rightarrow> nat \<Rightarrow> vec2 \<Rightarrow> real \<Rightarrow> world" where
  "addChild w this child lp la =
     (let w1 = modify w this (\<lambda>e. e\<lparr>children := children e @ [child]\<rparr>)
      in modify w1 child (\<lambda>e. e\<lparr>parent := Some this, localPos := lp, localAngle := la\<rparr>))"

definition splice_child :: "nat list \<Rightarrow> nat \<Rightarrow> nat list" where
  "splice_child cs child = (if child \<in> set cs then remove1 child cs else butlast cs)"

definition removeChild :: "world \<Rightarrow> nat \<Rightarrow> nat \<Rightarrow> world" where
  "removeChild w this child =
     (let w1 = modify w this (\<lambda>e. e\<lparr>children := splice_child (children e) child\<rparr>)
      in modify w1 child (\<lambda>e. e\<lparr>parent := None\<rparr>))"

text \<open>
  \<open>destroy\<close> returns at once on a destroyed object; otherwise it sets the flag, detaches
  the object from its parent with \<open>removeChild\<close>, and for each child clears the child's
  parent reference and destroys the child.  The object's own \<open>children\<close> array is not
  changed.  An identity outside the store denotes no object; the functions leave the
  world unchanged there.
\<close>

definition alive :: "world \<Rightarrow> nat" where
  "alive w = length (filter (\<lambda>e. \<not> destroyed e) (objects w))"

definition detach :: "world \<Rightarrow> nat \<Rightarrow> world" where
  "detach w this =
     (let w1 = modify w this (\<lambda>e. e\<lparr>destroyed := True\<rparr>)
      in case parent (obj w1 this) of None \<Rightarrow> w1 | Some p \<Rightarrow> removeChild w1 p this)"


function destroy :: "world \<Rightarrow> nat \<Rightarrow> world"
  and destroy_children :: "world \<Rightarrow> nat list \<Rightarrow> world" where
  "destroy w this =
     (if this \<ge> length (objects w) \<or> destroyed (obj w this) then w
      else let w1 = detach w this
           in destroy_children w1 (children (obj w1 this)))"
| "destroy_children w [] = w"
| "destroy_children w (child # cs) =
     destroy_children (destroy (modify w child (\<lambda>e. e\<lparr>parent := None\<rparr>)) child) cs"
  by pat_completeness auto
termination
proof -
  have upd: "i < length xs \<Longrightarrow>
      length (filter (\<lambda>e. \<not> destroyed e) (xs[i := y])) + (if destroyed (xs ! i) then 0 else 1)
        = length (filter (\<lambda>e. \<not> destroyed e) xs) + (if destroyed y then 0 else 1)"
    for xs :: "entity list" and i y
  proof (induction xs arbitrary: i)
    case Nil
    then show ?case by simp
  next
    case (Cons a xs)
    show ?case
    proof (cases i)
      case 0
      then show ?thesis by simp
    next
      case (Suc n)
      then show ?thesis using Cons.IH[of n] Cons.prems by (auto split: if_splits)
    qed
  qed
  have keep: "alive (modify w i f) = alive w" if "\<And>e. destroyed (f e) = destroyed e" for w i f
  proof (cases "i < length (objects w)")
    case True
    then show ?thesis
      using upd[of i "objects w" "f (objects w ! i)"] that by (simp add: alive_def modify_def)
  next
    case False
    then show ?thesis by (simp add: alive_def modify_def list_update_beyond)
  qed
  have rem: "alive (removeChild w p c) = alive w" for w p c
    by (simp add: removeChild_def Let_def keep)
  have det: "alive (detach w x) < alive w" if "x < length (objects w)" "\<not> destroyed (obj w x)" for w x
  proof -
    have "alive (modify w x (\<lambda>e. e\<lparr>destroyed := True\<rparr>)) < alive w"
      using that upd[of x "objects w" "(objects w ! x)\<lparr>destroyed := True\<rparr>"]
      by (simp add: alive_def modify_def obj_def)
    then show ?thesis
      by (simp add: detach_def Let_def rem split: option.split)
  qed
  have mono: "(destroy_destroy_children_dom (Inl (w, x)) \<longrightarrow> alive (destroy w x) \<le> alive w)
      \<and> (destroy_destroy_children_dom (Inr (w, cs)) \<longrightarrow> alive (destroy_children w cs) \<le> alive w)"
    for w x cs
  proof -
    have a: "destroy_destroy_children_dom (Inl (w, x)) \<Longrightarrow> alive (destroy w x) \<le> alive w"
      and b: "destroy_destroy_children_dom (Inr (w, cs)) \<Longrightarrow> alive (destroy_children w cs) \<le> alive w"
      for w x cs
    proof (induction w x and w cs rule: destroy_destroy_children.pinduct)
      case (1 w this)
      show ?case
      proof (cases "this \<ge> length (objects w) \<or> destroyed (obj w this)")
        case True
        then show ?thesis using 1(1) by (simp add: destroy.psimps)
      next
        case False
        then have "alive (detach w this) < alive w" using det by simp
        moreover have "alive (destroy_children (detach w this) (children (obj (detach w this) this)))
            \<le> alive (detach w this)"
          using 1(2)[OF False refl] by simp
        ultimately show ?thesis using False 1(1) by (simp add: destroy.psimps Let_def)
      qed
    next
      case (2 w)
      then show ?case by (simp add: destroy_children.psimps)
    next
      case (3 w child cs)
      have "alive (destroy (modify w child (\<lambda>e. e\<lparr>parent := None\<rparr>)) child) \<le> alive w"
        using 3(2) by (simp add: keep)
      then show ?case using 3(1,3) by (simp add: destroy_children.psimps)
    qed
    then show ?thesis by blast
  qed
  show ?thesis
  proof (relation "(\<lambda>a. case a of Inl (w, x) \<Rightarrow> alive w | Inr (w, cs) \<Rightarrow> alive w)
                 <*mlex*> measure (\<lambda>a. case a of Inl (w, x) \<Rightarrow> 0 | Inr (w, cs) \<Rightarrow> Suc (length cs))")
    show "wf ((\<lambda>a. case a of Inl (w, x) \<Rightarrow> alive w | Inr (w, cs) \<Rightarrow> alive w)
                 <*mlex*> measure (\<lambda>a. case a of Inl (w, x) \<Rightarrow> 0 | Inr (w, cs) \<Rightarrow> Suc (length cs)))"
      by (simp add: wf_mlex)
  next
    fix w this w1
    assume "\<not> (length (objects w) \<le> this \<or> destroyed (obj w this))" "w1 = detach w this"
    then show "(Inr (w1, children (obj w1 this)), Inl (w, this))
       \<in> (\<lambda>a. case a of Inl (w, x) \<Rightarrow> alive w | Inr (w, cs) \<Rightarrow> alive w)
                 <*mlex*> measure (\<lambda>a. case a of Inl (w, x) \<Rightarrow> 0 | Inr (w, cs) \<Rightarrow> Suc (length cs))"
      using det[of this w] by (simp add: mlex_less)
  next
    fix w child cs
    show "(Inl (modify w child (\<lambda>e. e\<lparr>parent := None\<rparr>), child), Inr (w, child # cs))
       \<in> (\<lambda>a. case a of Inl (w, x) \<Rightarrow> alive w | Inr (w, cs) \<Rightarrow> alive w)
                 <*mlex*> measure (\<lambda>a. case a of Inl (w, x) \<Rightarrow> 0 | Inr (w, cs) \<Rightarrow> Suc (length cs))"
      by (rule mlex_leq) (simp_all add: keep)
  next
    fix w child cs
    assume "destroy_destroy_children_dom (Inl (modify w child (\<lambda>e. e\<lparr>parent := None\<rparr>), child))"
    then have "alive (destroy (modify w child (\<lambda>e. e\<lparr>parent := None\<rparr>)) child) \<le> alive w"
      using mono[of "modify w child (\<lambda>e. e\<lparr>parent := None\<rparr>)" child] by (simp add: keep)
    then show "(Inr (destroy (modify w child (\<lambda>e. e\<lparr>parent := None\<rparr>)) child, cs), Inr (w, child # cs))
       \<in> (\<lambda>a. case a of Inl (w, x) \<Rightarrow> alive w | Inr (w, cs) \<Rightarrow> alive w)
                 <*mlex*> measure (\<lambda>a. case a of Inl (w, x) \<Rightarrow> 0 | Inr (w, cs) \<Rightarrow> Suc (length cs))"
      by (intro mlex_leq) simp_all
  qed
qed


subsection \<open>Per-tick update of one object\<close>

text \<open>
  \<open>EngineObject.update\<close>, in the order of the source.  A parented object copies its
  parent's transform and returns.  Otherwise the speed is clamped, the velocity is damped
  and gravity added, and the position and angle are advanced; a fixed object (mass 0)
  returns here.  Then come ground friction, the collisions with solid objects and the
  collisions with tiles.  \<open>collideWithObject\<close> of the base class accepts every object.
  The direction \<open>randVector\<close> draws is a parameter: \<open>rnd o\<close> is the angle drawn while
  resolving against object \<open>o\<close>.
\<close>

definition update_parented :: "world \<Rightarrow> nat \<Rightarrow> nat \<Rightarrow> world" where
  "update_parented w this p =
     (let e = obj w this;
          m = getMirrorSign e 1;
          r = rotate_vec (fst (localPos e) * m, snd (localPos e) * 1) (- angle (obj w p));
          w1 = modify w this (\<lambda>e. e\<lparr>pos := (fst r + fst (pos (obj w p)), snd r + snd (pos (obj w p)))\<rparr>)
      in modify w1 this
           (\<lambda>e. e\<lparr>angle := getMirrorSign e 1 * localAngle e + angle (obj w1 p)\<rparr>))"

definition integrate :: "entity \<Rightarrow> entity" where
  "integrate e =
     (let vx0 = clamp (fst (velocity e)) maxObjectSpeed (- maxObjectSpeed);
          vy0 = clamp (snd (velocity e)) maxObjectSpeed (- maxObjectSpeed);
          vx = damping e * vx0;
          vy = damping e * vy0 + gravity * gravityScale e;
          av = angleVelocity e * angleDamping e
      in e\<lparr>velocity := (vx, vy), pos := (fst (pos e) + vx, snd (pos e) + vy),
            angleVelocity := av, angle := angle e + av\<rparr>)"

definition apply_friction :: "world \<Rightarrow> nat \<Rightarrow> world" where
  "apply_friction w this =
     (if ground_truthy (groundObject (obj w this))
      then let groundSpeed =
                 (case groundObject (obj w this) of
                    GroundObject g \<Rightarrow> fst (velocity (obj w g)) | _ \<Rightarrow> 0)
           in modify w this
                (\<lambda>e. e\<lparr>velocity := (groundSpeed + (fst (velocity e) - groundSpeed) * friction e,
                                     snd (velocity e)),
                        groundObject := GroundNone\<rparr>)
      else w)"

text \<open>
  \<open>Vector2.setAngle\<close> on a new vector: the vector of the given length whose angle, as
  the engine measures angles (\<open>Vector2.angle\<close> is \<open>atan2(x, y)\<close>: from the y axis towards
  the x axis), is \<open>a\<close>.
\<close>

definition setAngle :: "real \<Rightarrow> real \<Rightarrow> vec2" where
  "setAngle a len = (len * sin a, len * cos a)"

definition randVector :: "real \<Rightarrow> real \<Rightarrow> vec2" where
  "randVector a len = (len * sin a, len * cos a)"

definition push_away :: "(nat \<Rightarrow> real) \<Rightarrow> world \<Rightarrow> nat \<Rightarrow> nat \<Rightarrow> vec2 \<Rightarrow> world" where
  "push_away rnd w this other oldPos =
     (let deltaPos = (fst oldPos - fst (pos (obj w other)), snd oldPos - snd (pos (obj w other)));
          len = sqrt ((fst deltaPos)\<^sup>2 + (snd deltaPos)\<^sup>2);
          pushAwayAccel = 1/1000;
          v = (if len < 1/100 then randVector (rnd other) pushAwayAccel
               else (fst deltaPos * (pushAwayAccel / len), snd deltaPos * (pushAwayAccel / len)));
          w1 = modify w this (\<lambda>e. e\<lparr>velocity := (fst (velocity e) + fst v, snd (velocity e) + snd v)\<rparr>)
      in if mass (obj w1 other) \<noteq> 0
         then modify w1 other
                (\<lambda>e. e\<lparr>velocity := (fst (velocity e) - fst v, snd (velocity e) - snd v)\<rparr>)
         else w1)"

text \<open>
  The resolution of one overlapping pair that did not overlap at the old position: the
  vertical branch and then the horizontal branch, each guarded as in the source.
\<close>

definition resolve_y :: "world \<Rightarrow> nat \<Rightarrow> nat \<Rightarrow> vec2 \<Rightarrow> bool \<Rightarrow> world" where
  "resolve_y w this other oldPos wasMovingDown =
     (let epsilon = 1/1000;
          sy = snd (sizeObj (obj w this)) + snd (sizeObj (obj w other));
          w1 = modify w this
                 (\<lambda>e. e\<lparr>pos := (fst (pos e),
                                  snd (pos (obj w other))
                                    + (sy * (1/2) + epsilon) * sign_js (snd oldPos - snd (pos (obj w other))))\<rparr>)
      in if (ground_truthy (groundObject (obj w1 other)) \<and> wasMovingDown) \<or> mass (obj w1 other) = 0
         then let w2 = (if wasMovingDown
                        then modify w1 this (\<lambda>e. e\<lparr>groundObject := GroundObject other\<rparr>)
                        else w1)
              in modify w2 this
                   (\<lambda>e. e\<lparr>velocity := (fst (velocity e), snd (velocity e) * (- elasticity e))\<rparr>)
         else if mass (obj w1 other) \<noteq> 0
         then let v = (mass (obj w1 this) * snd (velocity (obj w1 this))
                        + mass (obj w1 other) * snd (velocity (obj w1 other)))
                      / (mass (obj w1 this) + mass (obj w1 other));
                  w2 = modify w1 other (\<lambda>e. e\<lparr>velocity := (fst (velocity e), v)\<rparr>)
              in modify w2 this (\<lambda>e. e\<lparr>velocity := (fst (velocity e), v)\<rparr>)
         else w1)"

definition resolve_x :: "world \<Rightarrow> nat \<Rightarrow> nat \<Rightarrow> vec2 \<Rightarrow> world" where
  "resolve_x w this other oldPos =
     (let epsilon = 1/1000;
          sx = fst (sizeObj (obj w this)) + fst (sizeObj (obj w other));
          w1 = modify w this
                 (\<lambda>e. e\<lparr>pos := (fst (pos (obj w other))
                                    + (sx * (1/2) + epsilon) * sign_js (fst oldPos - fst (pos (obj w other))),
                                  snd (pos e))\<rparr>)
      in if mass (obj w1 other) \<noteq> 0
         then let v = (mass (obj w1 this) * fst (velocity (obj w1 this))
                        + mass (obj w1 other) * fst (velocity (obj w1 other)))
                      / (mass (obj w1 this) + mass (obj w1 other));
                  w2 = modify w1 other (\<lambda>e. e\<lparr>velocity := (v, snd (velocity e))\<rparr>)
              in modify w2 this (\<lambda>e. e\<lparr>velocity := (v, snd (velocity e))\<rparr>)
         else modify w1 this
                (\<lambda>e. e\<lparr>velocity := (fst (velocity e) * (- elasticity e), snd (velocity e))\<rparr>))"

definition smallStepUp :: "world \<Rightarrow> nat \<Rightarrow> nat \<Rightarrow> vec2 \<Rightarrow> bool" where
  "smallStepUp w this other oldPos \<longleftrightarrow>
     (snd oldPos - snd (pos (obj w other))) * 2
       > snd (sizeObj (obj w this)) + snd (sizeObj (obj w other)) + gravity"

definition isBlockedX :: "world \<Rightarrow> nat \<Rightarrow> nat \<Rightarrow> vec2 \<Rightarrow> bool" where
  "isBlockedX w this other oldPos \<longleftrightarrow>
     abs_js (snd oldPos - snd (pos (obj w other))) * 2
       < snd (sizeObj (obj w this)) + snd (sizeObj (obj w other))"

definition isBlockedY :: "world \<Rightarrow> nat \<Rightarrow> nat \<Rightarrow> vec2 \<Rightarrow> bool" where
  "isBlockedY w this other oldPos \<longleftrightarrow>
     abs_js (fst oldPos - fst (pos (obj w other))) * 2
       < fst (sizeObj (obj w this)) + fst (sizeObj (obj w other))"

definition resolves_y :: "world \<Rightarrow> nat \<Rightarrow> nat \<Rightarrow> vec2 \<Rightarrow> bool" where
  "resolves_y w this other oldPos \<longleftrightarrow>
     smallStepUp w this other oldPos \<or> isBlockedY w this other oldPos
       \<or> \<not> isBlockedX w this other oldPos"

definition resolves_x :: "world \<Rightarrow> nat \<Rightarrow> nat \<Rightarrow> vec2 \<Rightarrow> bool" where
  "resolves_x w this other oldPos \<longleftrightarrow>
     \<not> smallStepUp w this other oldPos
       \<and> (isBlockedX w this other oldPos \<or> \<not> isBlockedY w this other oldPos)"

definition resolve_collision :: "world \<Rightarrow> nat \<Rightarrow> nat \<Rightarrow> vec2 \<Rightarrow> bool \<Rightarrow> world" where
  "resolve_collision w this other oldPos wasMovingDown =
     (let ry = resolves_y w this other oldPos;
          rx = resolves_x w this other oldPos;
          w1 = (if ry then resolve_y w this other oldPos wasMovingDown else w)
      in if rx then resolve_x w1 this other oldPos else w1)"

definition collideWithObject :: "world \<Rightarrow> nat \<Rightarrow> nat \<Rightarrow> bool" where
  "collideWithObject w this other \<longleftrightarrow> True"

definition collide_object ::
  "(nat \<Rightarrow> real) \<Rightarrow> nat \<Rightarrow> vec2 \<Rightarrow> bool \<Rightarrow> nat \<Rightarrow> world \<Rightarrow> world" where
  "collide_object rnd this oldPos wasMovingDown other w =
     (if (\<not> isSolid (obj w this) \<and> \<not> isSolid (obj w other)) \<or> destroyed (obj w other)
           \<or> parent (obj w other) \<noteq> None
      then w
      else if \<not> isOverlapping (pos (obj w this)) (sizeObj (obj w this))
                   (pos (obj w other)) (sizeObj (obj w other)) \<or> other = this
      then w
      else if \<not> collideWithObject w this other \<or> \<not> collideWithObject w other this
      then w
      else if isOverlapping oldPos (sizeObj (obj w this)) (pos (obj w other)) (sizeObj (obj w other))
      then push_away rnd w this other oldPos
      else resolve_collision w this other oldPos wasMovingDown)"

definition collide_tiles :: "world \<Rightarrow> nat \<Rightarrow> vec2 \<Rightarrow> bool \<Rightarrow> world" where
  "collide_tiles w this oldPos wasMovingDown =
     (let e = obj w this; hook = Some collideWithTile
      in if tileCollisionTest (tiles w) (pos e) (sizeObj e) hook
         then if \<not> tileCollisionTest (tiles w) oldPos (sizeObj e) hook
              then let blockedY = tileCollisionTest (tiles w) (fst oldPos, snd (pos e)) (sizeObj e) hook;
                       blockedX = tileCollisionTest (tiles w) (fst (pos e), snd oldPos) (sizeObj e) hook;
                       w1 = (if blockedY \<or> \<not> blockedX
                             then modify w this
                                    (\<lambda>e. e\<lparr>groundObject := GroundFlag wasMovingDown,
                                            pos := (fst (pos e), snd oldPos),
                                            velocity := (fst (velocity e), snd (velocity e) * (- elasticity e))\<rparr>)
                             else w)
                   in if blockedX \<or> \<not> blockedY
                      then modify w1 this
                             (\<lambda>e. e\<lparr>pos := (fst oldPos, snd (pos e)),
                                     velocity := (fst (velocity e) * (- elasticity e), snd (velocity e))\<rparr>)
                      else w1
              else w
         else w)"

definition update :: "(nat \<Rightarrow> real) \<Rightarrow> world \<Rightarrow> nat \<Rightarrow> world" where
  "update rnd w this =
     (case parent (obj w this) of
        Some p \<Rightarrow> update_parented w this p
      | None \<Rightarrow>
          let oldPos = pos (obj w this);
              w1 = modify w this integrate
          in if mass (obj w1 this) = 0 then w1
             else let wasMovingDown = snd (velocity (obj w1 this)) < 0;
                      w2 = apply_friction w1 this;
                      w3 = (if collideSolidObjects (obj w2 this)
                            then fold (collide_object rnd this oldPos wasMovingDown)
                                   (engineCollideObjects w2) w2
                            else w2)
                  in if collideTiles (obj w3 this)
                     then collide_tiles w3 this oldPos wasMovingDown
                     else w3)"


subsection \<open>The tick\<close>

text \<open>
  \<open>engineUpdateObjects\<close> calls the \<open>update\<close> method of each object, which subclasses
  override; \<open>upd o\<close> is the method of object \<open>o\<close> as a function on the world.  The
  \<open>for ... of\<close> loops run over the live arrays by index, so that elements added or
  removed while the loop runs are seen as JavaScript sees them.  Neither the loops nor the
  recursion are bounded by the source; the model counts down a fuel and returns \<open>None\<close>
  when it runs out.
\<close>

fun updateObject :: "nat \<Rightarrow> (nat \<Rightarrow> world \<Rightarrow> world) \<Rightarrow> nat \<Rightarrow> world \<Rightarrow> world option"
  and updateChildren :: "nat \<Rightarrow> (nat \<Rightarrow> world \<Rightarrow> world) \<Rightarrow> nat \<Rightarrow> nat \<Rightarrow> world \<Rightarrow> world option" where
  "updateObject 0 upd ob w = None"
| "updateObject (Suc n) upd ob w =
     (if \<not> destroyed (obj w ob) then updateChildren n upd ob 0 (upd ob w) else Some w)"
| "updateChildren 0 upd ob k w = None"
| "updateChildren (Suc n) upd ob k w =
     (if k < length (children (obj w ob))
      then case updateObject n upd (children (obj w ob) ! k) w of
             None \<Rightarrow> None
           | Some w' \<Rightarrow> updateChildren n upd ob (Suc k) w'
      else Some w)"

fun updateRoots :: "nat \<Rightarrow> (nat \<Rightarrow> world \<Rightarrow> world) \<Rightarrow> nat \<Rightarrow> world \<Rightarrow> world option" where
  "updateRoots 0 upd k w = None"
| "updateRoots (Suc n) upd k w =
     (if k < length (engineObjects w)
      then let ob = engineObjects w ! k
           in if parent (obj w ob) \<noteq> None then updateRoots n upd (Suc k) w
              else case updateObject n upd ob w of
                     None \<Rightarrow> None
                   | Some w' \<Rightarrow> updateRoots n upd (Suc k) w'
      else Some w)"

definition engineUpdateObjects :: "nat \<Rightarrow> (nat \<Rightarrow> world \<Rightarrow> world) \<Rightarrow> world \<Rightarrow> world option" where
  "engineUpdateObjects fuel upd w =
     (case updateRoots fuel upd 0 w of
        None \<Rightarrow> None
      | Some w' \<Rightarrow>
          Some (w'\<lparr>engineObjects := filter (\<lambda>ob. \<not> destroyed (obj w' ob)) (engineObjects w'),
                   engineCollideObjects :=
                     filter (\<lambda>ob. \<not> destroyed (obj w' ob)) (engineCollideObjects w'),
                   frame := Suc (frame w')\<rparr>))"



subsection \<open>Sequences of hierarchy operations\<close>

text \<open>
  A call of \<open>addChild\<close>, \<open>removeChild\<close> or \<open>destroy\<close>, and the condition its
  \<open>ASSERT\<close> states (together with the arguments being objects of the store).
\<close>

datatype hier_op = AddChild nat nat vec2 real | RemoveChild nat nat | Destroy nat

fun apply_op :: "world \<Rightarrow> hier_op \<Rightarrow> world" where
  "apply_op w (AddChild this child lp la) = addChild w this child lp la"
| "apply_op w (RemoveChild this child) = removeChild w this child"
| "apply_op w (Destroy this) = destroy w this"

fun op_asserts :: "world \<Rightarrow> hier_op \<Rightarrow> bool" where
  "op_asserts w (AddChild this child lp la) \<longleftrightarrow>
     this < length (objects w) \<and> child < length (objects w)
       \<and> parent (obj w child) = None \<and> child \<notin> set (children (obj w this))"
| "op_asserts w (RemoveChild this child) \<longleftrightarrow>
     this < length (objects w) \<and> child < length (objects w)
       \<and> parent (obj w child) = Some this \<and> child \<in> set (children (obj w this))"
| "op_asserts w (Destroy this) \<longleftrightarrow> this < length (objects w)"

fun run_ops :: "world \<Rightarrow> hier_op list \<Rightarrow> world" where
  "run_ops w [] = w"
| "run_ops w (a # as) = run_ops (apply_op w a) as"

fun asserts_hold :: "world \<Rightarrow> hier_op list \<Rightarrow> bool" where
  "asserts_hold w [] \<longleftrightarrow> True"
| "asserts_hold w (a # as) \<longleftrightarrow> op_asserts w a \<and> asserts_hold (apply_op w a) as"

text \<open>
  Consistency of the parent links with the children lists: a parent reference points to
  an object that lists the child; an object listed by a parent that is not destroyed
  refers to that parent; no children list repeats an object.
\<close>

definition hier_inv :: "world \<Rightarrow> bool" where
  "hier_inv w \<longleftrightarrow>
     (\<forall>c < length (objects w). \<forall>p. parent (obj w c) = Some p
          \<longrightarrow> p < length (objects w) \<and> c \<in> set (children (obj w p)))
   \<and> (\<forall>p < length (objects w). \<forall>c \<in> set (children (obj w p)).
          c < length (objects w) \<and> (\<not> destroyed (obj w p) \<longrightarrow> parent (obj w c) = Some p))
   \<and> (\<forall>p < length (objects w). distinct (children (obj w p)))"

text \<open>A world of freshly constructed objects, all registered, on an empty 1 by 1 grid.\<close>

definition newWorld :: "entity list \<Rightarrow> world" where
  "newWorld es =
     \<lparr> objects = es, engineObjects = [0 ..< length es], engineCollideObjects = [],
       tiles = initTileCollision (1, 1), frame = 0 \<rparr>"



text \<open>Example worlds.\<close>

definition fixed_world :: world where
  "fixed_world = newWorld [(newObject (0, 0))\<lparr>mass := 0\<rparr>]"

definition fixed_world_fast :: world where
  "fixed_world_fast = newWorld [(newObject (0, 0))\<lparr>mass := 0, velocity := (2, 0), gravityScale := 0\<rparr>]"

definition head_on_world :: world where
  "head_on_world =
     (newWorld
        [(newObject (0, 0))\<lparr>velocity := (1, 0), damping := 1, gravityScale := 0,
                            collideSolidObjects := True, isSolid := True\<rparr>,
         (newObject (3/2, 0))\<lparr>velocity := (- 1, 0), damping := 1, gravityScale := 0,
                            collideSolidObjects := True, isSolid := True\<rparr>])
     \<lparr>engineCollideObjects := [0, 1]\<rparr>"

definition no_rand :: "nat \<Rightarrow> real" where
  "no_rand ob = 0"

definition mirrored_child_world :: world where
  "mirrored_child_world =
     addChild (newWorld [(newObject (5, 5))\<lparr>angle := pi / 2\<rparr>,
                         (newObject (0, 0))\<lparr>velocity := (1, 1), mirror := True\<rparr>])
       0 1 (1, 0) (1/2)"


definition pair_world :: world where
  "pair_world = newWorld [newObject (0, 0), newObject (1, 0)]"



text \<open>
  An object with two children.  The first child's \<open>update\<close> method is that of a particle
  emitter whose emit time has passed: the base update, then \<open>this.destroy()\<close>.  The other
  objects have the base update.
\<close>

definition emitter_update :: "nat \<Rightarrow> world \<Rightarrow> world" where
  "emitter_update ob w = (if ob = 1 then destroy (update no_rand w ob) ob else update no_rand w ob)"

definition emitter_world :: world where
  "emitter_world =
     addChild (addChild (newWorld [newObject (5, 5), newObject (0, 0), newObject (0, 0)])
                 0 1 (1, 0) 0) 0 2 (2, 0) 0"



section \<open>Tile grid: bounds\<close>

lemma toInt32_of_int: "- (2 ^ 31) \<le> i \<Longrightarrow> i < 2 ^ 31 \<Longrightarrow> toInt32 (of_int i) = i"
  unfolding toInt32_def Let_def
  apply (cases "i < 0")
   apply simp_all
  subgoal
  proof -
    assume a: "- 2147483648 \<le> i" "i < 0"
    have "i mod 4294967296 = i + 4294967296" using a
      by (smt (verit) mod_add_self2 mod_pos_pos_trivial)
    then show ?thesis using a by simp
  qed
  done

lemmas grid_eval =
  setTileCollisionData_def initTileCollision_def getTileCollisionData_def arrayCheck_def
  tile_index_def toInt32_def truthy_def Let_def

lemma grid_row_6_eq:
  "grid_row_6 = \<lparr>tileCollisionSize = (6, 1),
     tileCollision = (\<lambda>i. if 0 \<le> i \<and> i < 6 then Some 0 else None)(3 \<mapsto> 1)\<rparr>"
  by (simp add: grid_row_6_def grid_eval)

lemma grid_3x3_eq:
  "grid_3x3 = \<lparr>tileCollisionSize = (3, 3),
     tileCollision = (\<lambda>i. if 0 \<le> i \<and> i < 9 then Some 0 else None)(2 \<mapsto> 1)\<rparr>"
  by (simp add: grid_3x3_def grid_eval)

lemma grid_3x2_eq:
  "grid_3x2 = \<lparr>tileCollisionSize = (3, 2),
     tileCollision = (\<lambda>i. if 0 \<le> i \<and> i < 6 then Some 0 else None)(4 \<mapsto> 1)\<rparr>"
  by (simp add: grid_3x2_def grid_eval)

text \<open>
  C6.  For a coordinate outside \<open>[0,width) \<times> [0,height)\<close>, \<open>getTileCollisionData\<close>
  returns 0 and \<open>setTileCollisionData\<close> returns the grid unchanged, so a read after a
  write at such a coordinate returns 0 and not the written value.
\<close>

theorem tile_data_out_of_bounds:
  assumes "tileCollisionSize g = (w, h)"
    and "\<not> (0 \<le> fst p \<and> fst p < of_int w \<and> 0 \<le> snd p \<and> snd p < of_int h)"
  shows "getTileCollisionData g p = Some 0
       \<and> setTileCollisionData g p d = g
       \<and> getTileCollisionData (setTileCollisionData g p d) p = Some 0"
  using assms by (auto simp: getTileCollisionData_def setTileCollisionData_def arrayCheck_def)

theorem tile_data_out_of_bounds_witness:
  "getTileCollisionData grid_3x2 (5, 0) = Some 0
     \<and> setTileCollisionData grid_3x2 (5, 0) 7 = grid_3x2
     \<and> getTileCollisionData (setTileCollisionData grid_3x2 (5, 0) 7) (5, 0) = Some 0"
  using tile_data_out_of_bounds [of grid_3x2 3 2 "(5, 0)" 7]
  by (simp add: grid_3x2_eq)

text \<open>
  C2.  \<open>tileCollisionTest\<close> does not check the scanned cells against the grid bounds.
  On the 3 by 3 grid whose only nonzero cell is (2,0), the box centred at (-0.6, 1.5)
  with size (1,1) scans the columns -1 and 0 of the rows 1 and 2; the cells (0,1) and
  (0,2) are empty and the cells (-1,1) and (-1,2) are outside the grid, yet the test
  reports a collision, because the index \<open>1*3 + (-1)\<close> of cell (-1,1) is that of cell
  (2,0).
\<close>

theorem tileCollisionTest_reads_neighbouring_row:
  "tileCollisionTest grid_3x3 (- 6/10, 15/10) (1, 1) (Some collideWithTile)
     \<and> getTileCollisionData grid_3x3 (- 1, 1) = Some 0
     \<and> getTileCollisionData grid_3x3 (- 1, 2) = Some 0
     \<and> getTileCollisionData grid_3x3 (0, 1) = Some 0
     \<and> getTileCollisionData grid_3x3 (0, 2) = Some 0"
  by (simp add: grid_3x3_eq tileCollisionTest_def tile_test_cell_def collideWithTile_def
        grid_eval upto.simps)


section \<open>Tile grid: raycast\<close>
lemma ray_loop_hit: "ray_hit g ob s \<Longrightarrow> ray_loop g ob pE d sg s = Some (Some (cell_center s))"
  by (subst ray_loop.simps) simp

lemma ray_loop_end: "\<not> ray_hit g ob s \<Longrightarrow> ray_at_end pE s \<Longrightarrow> ray_loop g ob pE d sg s = Some None"
  by (subst ray_loop.simps) simp

lemma ray_loop_step: "\<not> ray_hit g ob s \<Longrightarrow> \<not> ray_at_end pE s \<Longrightarrow>
   ray_loop g ob pE d sg s = ray_loop g ob pE d sg (ray_step (fst d) (snd d) (fst sg) (snd sg) s)"
  by (subst ray_loop.simps) simp

lemma ray_arith:
  fixes dx dy rx ry e :: int
  assumes "0 \<le> rx" "rx \<le> dx" "0 \<le> ry" "ry \<le> - dy"
    and e: "e = dx + dy - dx * ry - dy * rx"
    and ne: "rx \<noteq> 0 \<or> ry \<noteq> 0"
  shows "2 * e \<ge> dy \<longrightarrow> 1 \<le> rx" and "2 * e \<le> dx \<longrightarrow> 1 \<le> ry" and "2 * e \<ge> dy \<or> 2 * e \<le> dx"
proof -
  show "2 * e \<ge> dy \<longrightarrow> 1 \<le> rx"
  proof (rule impI, rule ccontr)
    assume h: "2 * e \<ge> dy" and "\<not> 1 \<le> rx"
    then have rx0: "rx = 0" using assms by simp
    then have "1 \<le> ry" using ne assms by simp
    then have "dx * 1 \<le> dx * ry" using assms by (intro mult_left_mono) auto
    then show False using e rx0 h \<open>1 \<le> ry\<close> assms by simp
  qed
  show "2 * e \<le> dx \<longrightarrow> 1 \<le> ry"
  proof (rule impI, rule ccontr)
    assume h: "2 * e \<le> dx" and "\<not> 1 \<le> ry"
    then have ry0: "ry = 0" using assms by simp
    then have "1 \<le> rx" using ne assms by simp
    then have "dy * rx \<le> dy * 1" using assms by (intro mult_left_mono_neg) auto
    then show False using e ry0 h \<open>1 \<le> rx\<close> assms by simp
  qed
  show "2 * e \<ge> dy \<or> 2 * e \<le> dx" using assms by linarith
qed

lemma ray_inv_step:
  assumes inv: "ray_inv pE d sg s" and ne: "\<not> ray_at_end pE s"
  shows "ray_inv pE d sg (ray_step (fst d) (snd d) (fst sg) (snd sg) s) \<and>
         ray_rx pE sg (ray_step (fst d) (snd d) (fst sg) (snd sg) s)
           + ray_ry pE sg (ray_step (fst d) (snd d) (fst sg) (snd sg) s)
         < ray_rx pE sg s + ray_ry pE sg s"
proof -
  obtain x y e where s: "s = (x, y, e)" by (cases s)
  obtain X1 Y1 where pE: "pE = (X1, Y1)" by (cases pE)
  obtain dx dy where d: "d = (dx, dy)" by (cases d)
  obtain sx sy where sg: "sg = (sx, sy)" by (cases sg)
  define rx where "rx = sx * (X1 - x)"
  define ry where "ry = sy * (Y1 - y)"
  have sgn: "sx = 1 \<or> sx = - 1" "sy = 1 \<or> sy = - 1"
    using inv by (simp_all add: ray_inv_def sg)
  have b: "0 \<le> rx" "rx \<le> dx" "0 \<le> ry" "ry \<le> - dy"
    and e: "e = dx + dy - dx * ry - dy * rx"
    using inv by (simp_all add: ray_inv_def ray_rx_def ray_ry_def s pE d sg rx_def ry_def)
  have nz: "rx \<noteq> 0 \<or> ry \<noteq> 0"
    using ne sgn by (auto simp: ray_at_end_def s pE rx_def ry_def)
  note ar = ray_arith[OF b e nz]
  define bx where "bx \<longleftrightarrow> 2 * e \<ge> dy"
  define by' where "by' \<longleftrightarrow> 2 * e \<le> dx"
  define x' where "x' = (if bx then x + sx else x)"
  define y' where "y' = (if by' then y + sy else y)"
  define e' where "e' = (if by' then (if bx then e + dy else e) + dx else (if bx then e + dy else e))"
  define rx' where "rx' = (if bx then rx - 1 else rx)"
  define ry' where "ry' = (if by' then ry - 1 else ry)"
  have st: "ray_step (fst d) (snd d) (fst sg) (snd sg) s = (x', y', e')"
    by (simp add: ray_step_def Let_def s d sg x'_def y'_def e'_def bx_def by'_def)
  have rx': "sx * (X1 - x') = rx'"
    using sgn(1) by (auto simp: rx_def rx'_def x'_def algebra_simps)
  have ry': "sy * (Y1 - y') = ry'"
    using sgn(2) by (auto simp: ry_def ry'_def y'_def algebra_simps)
  have bx1: "bx \<Longrightarrow> 1 \<le> rx" and by1: "by' \<Longrightarrow> 1 \<le> ry" and some: "bx \<or> by'"
    using ar by (auto simp: bx_def by'_def)
  have bnd: "0 \<le> rx'" "rx' \<le> dx" "0 \<le> ry'" "ry' \<le> - dy"
    using b bx1 by1 by (auto simp: rx'_def ry'_def)
  have dec: "rx' + ry' < rx + ry"
    using some by (auto simp: rx'_def ry'_def)
  have e'eq: "e' = dx + dy - dx * ry' - dy * rx'"
    by (simp add: e'_def rx'_def ry'_def e algebra_simps)
  have "ray_inv pE d sg (x', y', e')"
    using sgn bnd e'eq by (simp add: ray_inv_def ray_rx_def ray_ry_def pE d sg rx' ry')
  moreover have "ray_rx pE sg (x', y', e') + ray_ry pE sg (x', y', e') < ray_rx pE sg s + ray_ry pE sg s"
    using dec by (simp add: ray_rx_def ray_ry_def pE sg s rx' ry' rx_def[symmetric] ry_def[symmetric])
  ultimately show ?thesis by (simp add: st)
qed

lemma ray_inv_init:
  "ray_init posStart posEnd = (pE, d, sg, s) \<Longrightarrow> ray_inv pE d sg s"
  by (auto simp: ray_init_def Let_def ray_inv_def ray_rx_def ray_ry_def abs_js_def sign_js_def algebra_simps)

lemma ray_walk_0: "ray_walk d sg s 0 = s"
  by (simp add: ray_walk_def)

lemma ray_walk_Suc: "ray_walk d sg s (Suc k) = ray_walk d sg (ray_step (fst d) (snd d) (fst sg) (snd sg) s) k"
  by (simp add: ray_walk_def funpow_swap1)

lemma ray_loop_first_hit:
  assumes "ray_inv pE d sg s"
  shows "\<exists>k. (\<forall>j<k. \<not> ray_hit g ob (ray_walk d sg s j) \<and> \<not> ray_at_end pE (ray_walk d sg s j)) \<and>
            (if ray_hit g ob (ray_walk d sg s k)
             then ray_loop g ob pE d sg s = Some (Some (cell_center (ray_walk d sg s k)))
             else ray_at_end pE (ray_walk d sg s k) \<and> ray_loop g ob pE d sg s = Some None)"
  using assms
proof (induction "nat (ray_rx pE sg s + ray_ry pE sg s)" arbitrary: s rule: less_induct)
  case less
  show ?case
  proof (cases "ray_hit g ob s \<or> ray_at_end pE s")
    case True
    then show ?thesis
      by (intro exI[of _ 0]) (auto simp: ray_walk_0 ray_loop_hit ray_loop_end)
  next
    case False
    let ?s' = "ray_step (fst d) (snd d) (fst sg) (snd sg) s"
    from False have nh: "\<not> ray_hit g ob s" and ne: "\<not> ray_at_end pE s" by auto
    from ray_inv_step[OF less.prems ne]
    have inv': "ray_inv pE d sg ?s'"
      and dec: "ray_rx pE sg ?s' + ray_ry pE sg ?s' < ray_rx pE sg s + ray_ry pE sg s" by auto
    have pos: "0 \<le> ray_rx pE sg ?s' + ray_ry pE sg ?s'"
      using inv' by (simp add: ray_inv_def)
    from less.hyps[OF _ inv'] dec pos
    obtain k where k: "\<forall>j<k. \<not> ray_hit g ob (ray_walk d sg ?s' j) \<and> \<not> ray_at_end pE (ray_walk d sg ?s' j)"
      "if ray_hit g ob (ray_walk d sg ?s' k)
             then ray_loop g ob pE d sg ?s' = Some (Some (cell_center (ray_walk d sg ?s' k)))
             else ray_at_end pE (ray_walk d sg ?s' k) \<and> ray_loop g ob pE d sg ?s' = Some None"
      by (auto split: if_splits)
    have a: "\<forall>j<Suc k. \<not> ray_hit g ob (ray_walk d sg s j) \<and> \<not> ray_at_end pE (ray_walk d sg s j)"
    proof (intro allI impI)
      fix j assume "j < Suc k"
      then show "\<not> ray_hit g ob (ray_walk d sg s j) \<and> \<not> ray_at_end pE (ray_walk d sg s j)"
        using k(1) nh ne by (cases j) (auto simp: ray_walk_Suc ray_walk_0)
    qed
    show ?thesis
      apply (rule exI[of _ "Suc k"])
      using a k(2) by (simp add: ray_walk_Suc ray_loop_step[OF nh ne])
  qed
qed


lemmas ray_eval =
  ray_loop_hit ray_loop_end ray_loop_step ray_hit_def ray_at_end_def ray_step_def
  cell_center_def tileCollisionRaycast_def ray_init_def int_vec_def abs_js_def sign_js_def
  getTileCollisionData_def arrayCheck_def tile_index_def toInt32_def
  truthy_def Let_def

text \<open>
  C7.  \<open>tileCollisionRaycast\<close> always returns.  There is a number \<open>k\<close> of passes such
  that no earlier visited cell was accepted or was the end cell, and either the cell
  visited at pass \<open>k\<close> is accepted (nonzero code, and positive when no object is given)
  and its centre is returned, or that cell is the end cell and no hit is returned.  On
  the one-row grid whose only nonzero cell is (3,0) with code 1, the cast from (0,0) to
  (5,0) without object returns (3.5, 0.5).
\<close>

theorem tileCollisionRaycast_first_accepted:
  "(\<exists>k. (\<forall>j<k. \<not> ray_hit g ob (ray_visit posStart posEnd j)
              \<and> \<not> ray_at_end (int_vec posEnd) (ray_visit posStart posEnd j))
       \<and> (if ray_hit g ob (ray_visit posStart posEnd k)
          then tileCollisionRaycast g posStart posEnd ob
                 = Some (Some (cell_center (ray_visit posStart posEnd k)))
          else ray_at_end (int_vec posEnd) (ray_visit posStart posEnd k)
             \<and> tileCollisionRaycast g posStart posEnd ob = Some None))
   \<and> tileCollisionRaycast grid_row_6 (0, 0) (5, 0) None = Some (Some (7/2, 1/2))"
proof
  obtain pE d sg s where i: "ray_init posStart posEnd = (pE, d, sg, s)"
    by (cases "ray_init posStart posEnd") auto
  have pE: "pE = int_vec posEnd"
    using i by (auto simp: ray_init_def Let_def)
  have vis: "\<And>k. ray_visit posStart posEnd k = ray_walk d sg s k"
    by (simp add: ray_visit_def i)
  have ray: "tileCollisionRaycast g posStart posEnd ob = ray_loop g ob (int_vec posEnd) d sg s"
    by (simp add: tileCollisionRaycast_def i pE)
  show "\<exists>k. (\<forall>j<k. \<not> ray_hit g ob (ray_visit posStart posEnd j)
              \<and> \<not> ray_at_end (int_vec posEnd) (ray_visit posStart posEnd j))
       \<and> (if ray_hit g ob (ray_visit posStart posEnd k)
          then tileCollisionRaycast g posStart posEnd ob
                 = Some (Some (cell_center (ray_visit posStart posEnd k)))
          else ray_at_end (int_vec posEnd) (ray_visit posStart posEnd k)
             \<and> tileCollisionRaycast g posStart posEnd ob = Some None)"
    unfolding vis ray
    using ray_loop_first_hit[OF ray_inv_init[OF i], of g ob] unfolding pE .
  show "tileCollisionRaycast grid_row_6 (0, 0) (5, 0) None = Some (Some (7/2, 1/2))"
    by (simp add: grid_row_6_eq ray_eval)
qed

theorem tileCollisionRaycast_first_accepted_witness:
  "tileCollisionRaycast grid_3x2 (2, 1) (0, 0) None \<noteq> None"
  using tileCollisionRaycast_first_accepted [of grid_3x2 None "(2, 1)" "(0, 0)"]
  by (auto split: if_splits)



lemma single_solid_hit:
  assumes "single_solid g (cx, cy)"
  shows "ray_hit g None (x, y, e) \<longleftrightarrow> x = cx \<and> y = cy"
proof -
  have "ray_hit g None (x, y, e) \<longleftrightarrow>
      (case getTileCollisionData g (of_int x, of_int y) of None \<Rightarrow> False | Some c \<Rightarrow> 0 < c)"
    by (auto simp: ray_hit_def Let_def truthy_def split: option.splits)
  then show ?thesis using assms by (simp add: single_solid_def)
qed

lemma ray_horizontal:
  assumes ss: "single_solid g (cx, cy)"
    and sx: "sx = 1 \<or> sx = - 1" and dx: "0 < dx"
    and n: "int n = sx * (cx - x)" and far: "int n < sx * (bx - x)"
  shows "ray_loop g None (bx, cy) (dx, 0) (sx, sy) (x, cy, dx)
           = Some (Some (of_int cx + 1/2, of_int cy + 1/2))"
  using n far
proof (induction n arbitrary: x)
  case 0
  then have "x = cx" using sx by auto
  then show ?case
    by (simp add: ray_loop_hit single_solid_hit[OF ss] cell_center_def)
next
  case (Suc n)
  have ne: "x \<noteq> cx" "x \<noteq> bx" using Suc.prems by auto
  then have nh: "\<not> ray_hit g None (x, cy, dx)" and nend: "\<not> ray_at_end (bx, cy) (x, cy, dx)"
    by (simp_all add: single_solid_hit[OF ss] ray_at_end_def)
  have st: "ray_step dx 0 sx sy (x, cy, dx) = (x + sx, cy, dx)"
    using dx by (simp add: ray_step_def Let_def)
  have a: "int n = sx * (cx - (x + sx))" "int n < sx * (bx - (x + sx))"
    using Suc.prems sx by (auto simp: algebra_simps)
  show ?case
    using ray_loop_step[OF nh nend, of "(dx, 0)" "(sx, sy)"] Suc.IH[OF a] by (simp add: st)
qed

lemma ray_vertical:
  assumes ss: "single_solid g (cx, cy)"
    and sy: "sy = 1 \<or> sy = - 1" and dy: "dy < 0"
    and n: "int n = sy * (cy - y)" and far: "int n < sy * (by - y)"
  shows "ray_loop g None (cx, by) (0, dy) (sx, sy) (cx, y, dy)
           = Some (Some (of_int cx + 1/2, of_int cy + 1/2))"
  using n far
proof (induction n arbitrary: y)
  case 0
  then have "y = cy" using sy by auto
  then show ?case
    by (simp add: ray_loop_hit single_solid_hit[OF ss] cell_center_def)
next
  case (Suc n)
  have ne: "y \<noteq> cy" "y \<noteq> by" using Suc.prems by auto
  then have nh: "\<not> ray_hit g None (cx, y, dy)" and nend: "\<not> ray_at_end (cx, by) (cx, y, dy)"
    by (simp_all add: single_solid_hit[OF ss] ray_at_end_def)
  have st: "ray_step 0 dy sx sy (cx, y, dy) = (cx, y + sy, dy)"
    using dy by (simp add: ray_step_def Let_def)
  have a: "int n = sy * (cy - (y + sy))" "int n < sy * (by - (y + sy))"
    using Suc.prems sy by (auto simp: algebra_simps)
  show ?case
    using ray_loop_step[OF nh nend, of "(0, dy)" "(sx, sy)"] Suc.IH[OF a] by (simp add: st)
qed

lemma ray_axis_hit:
  assumes ss: "single_solid g cell"
    and bt: "between_on_axis (int_vec A) (int_vec B) cell"
  shows "tileCollisionRaycast g A B None = Some (Some (of_int (fst cell) + 1/2, of_int (snd cell) + 1/2))"
proof -
  obtain cx cy where cell: "cell = (cx, cy)" by (cases cell)
  obtain ax ay where a: "int_vec A = (ax, ay)" by (cases "int_vec A")
  obtain bx "by" where b: "int_vec B = (bx, by)" by (cases "int_vec B")
  note ss' = ss[unfolded cell]
  from bt consider
    (h) "ay = by" "cy = ay" "ax < cx \<and> cx < bx \<or> bx < cx \<and> cx < ax"
    | (v) "ax = bx" "cx = ax" "ay < cy \<and> cy < by \<or> by < cy \<and> cy < ay"
    by (auto simp: between_on_axis_def a b cell)
  then show ?thesis
  proof cases
    case h
    have i: "ray_init A B = ((bx, cy), (abs_js (bx - ax), 0), (sign_js (bx - ax), 1), (ax, cy, abs_js (bx - ax)))"
      using h by (simp add: ray_init_def Let_def a b abs_js_def sign_js_def)
    have "ray_loop g None (bx, cy) (abs_js (bx - ax), 0) (sign_js (bx - ax), 1) (ax, cy, abs_js (bx - ax))
        = Some (Some (of_int cx + 1/2, of_int cy + 1/2))"
    proof (rule ray_horizontal[OF ss', where n = "nat (sign_js (bx - ax) * (cx - ax))"])
      show "sign_js (bx - ax) = 1 \<or> sign_js (bx - ax) = - 1" by (simp add: sign_js_def)
      show "0 < abs_js (bx - ax)" using h by (auto simp: abs_js_def)
      show "int (nat (sign_js (bx - ax) * (cx - ax))) = sign_js (bx - ax) * (cx - ax)"
        using h by (auto simp: sign_js_def)
      show "int (nat (sign_js (bx - ax) * (cx - ax))) < sign_js (bx - ax) * (bx - ax)"
        using h by (auto simp: sign_js_def)
    qed
    then show ?thesis by (simp add: tileCollisionRaycast_def i cell)
  next
    case v
    have i: "ray_init A B = ((cx, by), (0, - abs_js (by - ay)), (1, sign_js (by - ay)), (cx, ay, - abs_js (by - ay)))"
      using v by (simp add: ray_init_def Let_def a b abs_js_def sign_js_def)
    have "ray_loop g None (cx, by) (0, - abs_js (by - ay)) (1, sign_js (by - ay)) (cx, ay, - abs_js (by - ay))
        = Some (Some (of_int cx + 1/2, of_int cy + 1/2))"
    proof (rule ray_vertical[OF ss', where n = "nat (sign_js (by - ay) * (cy - ay))"])
      show "sign_js (by - ay) = 1 \<or> sign_js (by - ay) = - 1" by (simp add: sign_js_def)
      show "- abs_js (by - ay) < 0" using v by (auto simp: abs_js_def)
      show "int (nat (sign_js (by - ay) * (cy - ay))) = sign_js (by - ay) * (cy - ay)"
        using v by (auto simp: sign_js_def)
      show "int (nat (sign_js (by - ay) * (cy - ay))) < sign_js (by - ay) * (by - ay)"
        using v by (auto simp: sign_js_def)
    qed
    then show ?thesis by (simp add: tileCollisionRaycast_def i cell)
  qed
qed

lemma between_on_axis_sym: "between_on_axis a b cell \<Longrightarrow> between_on_axis b a cell"
  by (auto simp: between_on_axis_def)

lemma ray_single_visits:
  assumes ss: "single_solid g cell"
  shows "tileCollisionRaycast g A B None
           = (if ray_visits A B cell
              then Some (Some (of_int (fst cell) + 1/2, of_int (snd cell) + 1/2))
              else Some None)"
proof -
  obtain cx cy where cell: "cell = (cx, cy)" by (cases cell)
  have hit: "ray_hit g None s \<longleftrightarrow> ray_cell s = cell" for s
    using single_solid_hit[OF ss[unfolded cell]] by (cases s) (simp add: ray_cell_def cell)
  have cen: "ray_cell s = cell \<Longrightarrow> cell_center s = (of_int (fst cell) + 1/2, of_int (snd cell) + 1/2)" for s
    by (cases s) (auto simp: ray_cell_def cell_center_def)
  obtain pE d sg s0 where i: "ray_init A B = (pE, d, sg, s0)"
    by (cases "ray_init A B") auto
  have pE: "pE = int_vec B" using i by (auto simp: ray_init_def Let_def)
  have vis: "\<And>k. ray_visit A B k = ray_walk d sg s0 k" by (simp add: ray_visit_def i)
  have ray: "tileCollisionRaycast g A B None = ray_loop g None (int_vec B) d sg s0"
    by (simp add: tileCollisionRaycast_def i pE)
  from ray_loop_first_hit[OF ray_inv_init[OF i], of g None, unfolded pE]
  obtain k where before: "\<forall>j<k. \<not> ray_hit g None (ray_visit A B j) \<and> \<not> ray_at_end (int_vec B) (ray_visit A B j)"
    and at: "if ray_hit g None (ray_visit A B k)
             then tileCollisionRaycast g A B None = Some (Some (cell_center (ray_visit A B k)))
             else ray_at_end (int_vec B) (ray_visit A B k) \<and> tileCollisionRaycast g A B None = Some None"
    unfolding vis ray by blast
  show ?thesis
  proof (cases "ray_hit g None (ray_visit A B k)")
    case True
    then have c: "ray_cell (ray_visit A B k) = cell" by (simp add: hit)
    have "ray_visits A B cell"
      unfolding ray_visits_def using before c by blast
    then show ?thesis using at True cen[OF c] by simp
  next
    case False
    then have e: "ray_at_end (int_vec B) (ray_visit A B k)"
      and r: "tileCollisionRaycast g A B None = Some None" using at by auto
    have "\<not> ray_visits A B cell"
    proof
      assume "ray_visits A B cell"
      then obtain k' where k': "\<forall>j<k'. \<not> ray_at_end (int_vec B) (ray_visit A B j)"
        and c: "ray_cell (ray_visit A B k') = cell"
        unfolding ray_visits_def by blast
      have "\<not> k < k'" using k' e by blast
      then have "k' < k \<or> k' = k" by auto
      then have "\<not> ray_hit g None (ray_visit A B k')" using before False by auto
      then show False using c by (simp add: hit)
    qed
    then show ?thesis using r by simp
  qed
qed

text \<open>
  C5, amended.  On a grid with exactly one solid cell (positive code), the cast from \<open>A\<close>
  to \<open>B\<close> returns the centre of that cell if its walk visits the cell and returns no hit
  otherwise, and likewise the cast from \<open>B\<close> to \<open>A\<close> with its own walk; so both casts
  report a hit exactly when the cell lies on both walks.  In particular, if the cells of
  \<open>A\<close> and \<open>B\<close> lie in one row or in one column and the solid cell lies strictly between
  them in that row or column, both casts return the centre of that cell.
\<close>

theorem raycast_hits_iff_walk_visits:
  assumes "single_solid g cell"
  shows "tileCollisionRaycast g A B None
           = (if ray_visits A B cell
              then Some (Some (of_int (fst cell) + 1/2, of_int (snd cell) + 1/2))
              else Some None)
       \<and> tileCollisionRaycast g B A None
           = (if ray_visits B A cell
              then Some (Some (of_int (fst cell) + 1/2, of_int (snd cell) + 1/2))
              else Some None)
       \<and> ((tileCollisionRaycast g A B None \<noteq> Some None \<and> tileCollisionRaycast g B A None \<noteq> Some None)
            \<longleftrightarrow> (ray_visits A B cell \<and> ray_visits B A cell))
       \<and> (between_on_axis (int_vec A) (int_vec B) cell \<longrightarrow>
            tileCollisionRaycast g A B None = Some (Some (of_int (fst cell) + 1/2, of_int (snd cell) + 1/2))
          \<and> tileCollisionRaycast g B A None = Some (Some (of_int (fst cell) + 1/2, of_int (snd cell) + 1/2)))"
  using ray_single_visits[OF assms, of A B] ray_single_visits[OF assms, of B A]
    ray_axis_hit[OF assms, of A B] ray_axis_hit[OF assms, of B A] between_on_axis_sym[of "int_vec A" "int_vec B" cell]
  by auto

lemma single_solid_row_6_ladder: "single_solid grid_row_6_ladder (3, 0)"
proof -
  have "(case getTileCollisionData grid_row_6_ladder (of_int x, of_int y) of
           None \<Rightarrow> False | Some c \<Rightarrow> 0 < c) \<longleftrightarrow> (x, y) = (3, 0)" for x y
  proof (cases "0 \<le> x \<and> x < 6 \<and> y = 0")
    case True
    then have "x = 0 \<or> x = 1 \<or> x = 2 \<or> x = 3 \<or> x = 4 \<or> x = 5" by auto
    then show ?thesis using True
      by (auto simp: grid_row_6_ladder_def grid_row_6_eq getTileCollisionData_def
            setTileCollisionData_def arrayCheck_def tile_index_def toInt32_def Let_def)
  next
    case False
    then show ?thesis
      by (auto simp: grid_row_6_ladder_def grid_row_6_eq getTileCollisionData_def
            setTileCollisionData_def arrayCheck_def)
  qed
  then show ?thesis by (simp add: single_solid_def)
qed

theorem raycast_hits_iff_walk_visits_witness:
  "getTileCollisionData grid_row_6_ladder (1, 0) = Some (- 1)
   \<and> getTileCollisionData grid_row_6_ladder (3, 0) = Some 1
   \<and> tileCollisionRaycast grid_row_6_ladder (0, 0) (5, 0) None = Some (Some (7/2, 1/2))
   \<and> tileCollisionRaycast grid_row_6_ladder (5, 0) (0, 0) None = Some (Some (7/2, 1/2))
   \<and> ray_visits (0, 0) (5, 0) (3, 0) \<and> ray_visits (5, 0) (0, 0) (3, 0)"
proof -
  have b: "between_on_axis (int_vec (0, 0)) (int_vec (5, 0)) (3, 0)"
    by (simp add: between_on_axis_def int_vec_def toInt32_def)
  have g: "getTileCollisionData grid_row_6_ladder (1, 0) = Some (- 1)
      \<and> getTileCollisionData grid_row_6_ladder (3, 0) = Some 1"
    by (simp add: grid_row_6_ladder_def grid_row_6_eq getTileCollisionData_def
          setTileCollisionData_def arrayCheck_def tile_index_def toInt32_def Let_def)
  show ?thesis
    using raycast_hits_iff_walk_visits[OF single_solid_row_6_ladder, of "(0, 0)" "(5, 0)"] b g
    by (auto split: if_splits)
qed

text \<open>
  C5, as stated, fails.  On the 3 by 2 grid whose only nonzero cell is (1,1), the cast
  from (0.9, 0.9) to (2.1, 1.9) visits the cells (0,0), (1,1), (2,1) and returns the
  centre of (1,1); the cast back visits (2,1), (1,0), (0,0) and returns no hit.  The
  cell (1,1) is neither end cell, and the segment between the two points crosses it.
\<close>

theorem raycast_reverse_misses_counterexample:
  "map (tileCollision grid_3x2) [0, 1, 2, 3, 4, 5]
     = [Some 0, Some 0, Some 0, Some 0, Some 1, Some 0]
   \<and> tileCollisionSize grid_3x2 = (3, 2)
   \<and> int_vec (9/10, 9/10) = (0, 0) \<and> int_vec (21/10, 19/10) = (2, 1)
   \<and> tileCollisionRaycast grid_3x2 (9/10, 9/10) (21/10, 19/10) None = Some (Some (3/2, 3/2))
   \<and> tileCollisionRaycast grid_3x2 (21/10, 19/10) (9/10, 9/10) None = Some None"
  by (simp add: grid_3x2_eq ray_eval)


section \<open>Object update\<close>

lemma length_modify [simp]: "length (objects (modify w i f)) = length (objects w)"
  by (simp add: modify_def)

lemma obj_modify:
  "obj (modify w i f) j = (if j = i \<and> i < length (objects w) then f (obj w i) else obj w j)"
  by (auto simp: modify_def obj_def list_update_beyond)

lemma obj_modify_same [simp]: "i < length (objects w) \<Longrightarrow> obj (modify w i f) i = f (obj w i)"
  by (simp add: obj_modify)

lemma obj_modify_other [simp]: "j \<noteq> i \<Longrightarrow> obj (modify w i f) j = obj w j"
  by (simp add: obj_modify)

lemmas update_eval =
  update_def Let_def integrate_def modify_def obj_def clamp_def maxObjectSpeed_def gravity_def
  apply_friction_def ground_truthy_def collide_object_def isOverlapping_def abs_js_def sign_js_def
  collideWithObject_def resolve_collision_def resolves_x_def resolves_y_def smallStepUp_def
  isBlockedX_def isBlockedY_def resolve_x_def resolve_y_def collide_tiles_def tileCollisionTest_def
  tile_test_cell_def collideWithTile_def upto.simps newWorld_def newObject_def
  initTileCollision_def toInt32_def truthy_def

text \<open>
  C1, as stated, fails: a fixed object (mass 0) without parent, at rest, with the default
  damping 0.99 and gravity scale 1 has velocity (0, -0.01) after one update, which is not
  damping times the velocity before.
\<close>

theorem update_fixed_gravity_counterexample:
  "parent (obj fixed_world 0) = None \<and> mass (obj fixed_world 0) = 0
   \<and> velocity (obj fixed_world 0) = (0, 0)
   \<and> damping (obj fixed_world 0) = 99/100
   \<and> velocity (obj (update no_rand fixed_world 0) 0) = (0, - 1/100)"
  by (simp add: fixed_world_def update_eval)

text \<open>
  C1, amended.  For a fixed object (mass 0) without parent, one update leaves the
  velocity at damping times the velocity clamped to [-1, 1] on the x axis, and at damping
  times the clamped velocity plus gravity times the gravity scale on the y axis.
\<close>

theorem update_fixed_velocity:
  assumes "this < length (objects w)" "parent (obj w this) = None" "mass (obj w this) = 0"
  shows "velocity (obj (update rnd w this) this) =
           (damping (obj w this) * clamp (fst (velocity (obj w this))) 1 (- 1),
            damping (obj w this) * clamp (snd (velocity (obj w this))) 1 (- 1)
              + gravity * gravityScale (obj w this))"
  using assms by (simp add: update_def Let_def integrate_def maxObjectSpeed_def)

theorem update_fixed_velocity_witness:
  "velocity (obj (update no_rand fixed_world_fast 0) 0) = (99/100, 0)"
  using update_fixed_velocity [of 0 fixed_world_fast no_rand]
  by (simp add: fixed_world_fast_def newWorld_def newObject_def obj_def clamp_def gravity_def)

text \<open>
  C8.  For an object whose parent reference is set, \<open>update\<close> changes only that object's
  position and angle.  With \<open>m\<close> the mirror sign (-1 when the object's mirror flag is
  set, 1 otherwise), \<open>(lx, ly)\<close> the local offset and \<open>a\<close> the parent's angle, the
  position becomes the parent's position plus
  \<open>(m*lx*cos a + ly*sin a, - m*lx*sin a + ly*cos a)\<close>, and the angle becomes \<open>m\<close> times
  the local angle plus \<open>a\<close>.  Every other field, every other object, the registries and
  the tile grid are as before.  The offset is turned by the parent's angle in the
  engine's measure of angles: the source applies \<open>Vector2.rotate\<close> to minus the parent's
  angle, and \<open>rotate\<close> by \<open>- \<theta>\<close> takes the vector of angle \<open>\<alpha>\<close> to the vector of angle
  \<open>\<alpha> + \<theta>\<close>.
\<close>

theorem update_parented_only:
  fixes w :: world and this p :: nat
  defines "m \<equiv> (if mirror (obj w this) then - 1 else 1 :: real)"
    and "a \<equiv> angle (obj w p)"
    and "lx \<equiv> fst (localPos (obj w this))"
    and "ly \<equiv> snd (localPos (obj w this))"
  assumes "this < length (objects w)" "parent (obj w this) = Some p"
  shows "update rnd w this =
     w\<lparr>objects := (objects w)[this := (obj w this)
        \<lparr>pos := (fst (pos (obj w p)) + (m * lx * cos a + ly * sin a),
                 snd (pos (obj w p)) + (- (m * lx) * sin a + ly * cos a)),
          angle := m * localAngle (obj w this) + a\<rparr>]\<rparr>
     \<and> rotate_vec (setAngle \<alpha> len) (- \<theta>) = setAngle (\<alpha> + \<theta>) len"
proof
  show "update rnd w this =
     w\<lparr>objects := (objects w)[this := (obj w this)
        \<lparr>pos := (fst (pos (obj w p)) + (m * lx * cos a + ly * sin a),
                 snd (pos (obj w p)) + (- (m * lx) * sin a + ly * cos a)),
          angle := m * localAngle (obj w this) + a\<rparr>]\<rparr>"
    using assms(5,6)
    by (simp add: m_def a_def lx_def ly_def update_def update_parented_def Let_def modify_def
          obj_def rotate_vec_def getMirrorSign_def nth_list_update add.commute)
  show "rotate_vec (setAngle \<alpha> len) (- \<theta>) = setAngle (\<alpha> + \<theta>) len"
    by (simp add: rotate_vec_def setAngle_def Let_def sin_add cos_add algebra_simps)
qed

theorem update_parented_only_witness:
  "mirror (obj mirrored_child_world 1) \<and> angle (obj mirrored_child_world 0) = pi / 2
   \<and> localPos (obj mirrored_child_world 1) = (1, 0)
   \<and> pos (obj (update no_rand mirrored_child_world 1) 1) = (5, 6)
   \<and> angle (obj (update no_rand mirrored_child_world 1) 1) = pi / 2 - 1 / 2
   \<and> velocity (obj (update no_rand mirrored_child_world 1) 1) = (1, 1)"
  using update_parented_only [of 1 mirrored_child_world 0 no_rand]
  by (simp add: mirrored_child_world_def addChild_def newWorld_def newObject_def modify_def obj_def
        Let_def)


section \<open>Object-object resolution\<close>

lemma resolve_x_velocity:
  assumes "this \<noteq> other" "this < length (objects w)" "other < length (objects w)"
    and "mass (obj w other) \<noteq> 0"
  shows "fst (velocity (obj (resolve_x w this other oldPos) this))
           = (mass (obj w this) * fst (velocity (obj w this))
               + mass (obj w other) * fst (velocity (obj w other)))
             / (mass (obj w this) + mass (obj w other))"
    and "fst (velocity (obj (resolve_x w this other oldPos) other))
           = (mass (obj w this) * fst (velocity (obj w this))
               + mass (obj w other) * fst (velocity (obj w other)))
             / (mass (obj w this) + mass (obj w other))"
  using assms by (simp_all add: resolve_x_def Let_def)

lemma resolve_y_keeps_x:
  assumes "this \<noteq> other" "this < length (objects w)" "other < length (objects w)"
  shows "fst (velocity (obj (resolve_y w this other oldPos wmd) q)) = fst (velocity (obj w q))"
    and "mass (obj (resolve_y w this other oldPos wmd) q) = mass (obj w q)"
    and "length (objects (resolve_y w this other oldPos wmd)) = length (objects w)"
    and "resolves_x (resolve_y w this other oldPos wmd) this other oldPos = resolves_x w this other oldPos"
  using assms
  by (auto simp: resolve_y_def Let_def obj_modify resolves_x_def smallStepUp_def isBlockedX_def isBlockedY_def)

lemma resolve_y_velocity:
  assumes "this \<noteq> other" "this < length (objects w)" "other < length (objects w)"
    and "mass (obj w other) \<noteq> 0"
    and "\<not> (ground_truthy (groundObject (obj w other)) \<and> wmd)"
  shows "snd (velocity (obj (resolve_y w this other oldPos wmd) this))
           = (mass (obj w this) * snd (velocity (obj w this))
               + mass (obj w other) * snd (velocity (obj w other)))
             / (mass (obj w this) + mass (obj w other))"
    and "snd (velocity (obj (resolve_y w this other oldPos wmd) other))
           = (mass (obj w this) * snd (velocity (obj w this))
               + mass (obj w other) * snd (velocity (obj w other)))
             / (mass (obj w this) + mass (obj w other))"
  using assms by (auto simp: resolve_y_def Let_def)

lemma resolve_x_keeps_y:
  assumes "this \<noteq> other" "this < length (objects w)" "other < length (objects w)"
  shows "snd (velocity (obj (resolve_x w this other oldPos) q)) = snd (velocity (obj w q))"
  using assms by (auto simp: resolve_x_def Let_def obj_modify)

text \<open>
  C3.  Let two distinct objects with positive masses \<open>m1\<close> and \<open>m2\<close> be resolved against
  each other.  On the x axis, when the horizontal branch runs, both velocities become
  \<open>(m1*v1 + m2*v2)/(m1 + m2)\<close> and \<open>m1*v1' + m2*v2' = m1*v1 + m2*v2\<close>.  On the y axis
  the same holds when the vertical branch runs and does not take the bounce (the other
  object is not grounded while this one moves down).  Two objects of mass 1 with
  elasticity 0 meeting head-on with velocities +1 and -1 on x both have velocity 0 after
  the update of the first (damping 1, so that the velocities at the resolution are +1 and
  -1).
\<close>

theorem resolve_momentum_average:
  fixes w :: world and this other :: nat
  defines "m1 \<equiv> mass (obj w this)" and "m2 \<equiv> mass (obj w other)"
  assumes "this \<noteq> other" "this < length (objects w)" "other < length (objects w)"
    and "0 < m1" "0 < m2"
  shows "(resolves_x w this other oldPos \<longrightarrow>
            fst (velocity (obj (resolve_collision w this other oldPos wmd) this))
              = (m1 * fst (velocity (obj w this)) + m2 * fst (velocity (obj w other))) / (m1 + m2)
          \<and> fst (velocity (obj (resolve_collision w this other oldPos wmd) other))
              = (m1 * fst (velocity (obj w this)) + m2 * fst (velocity (obj w other))) / (m1 + m2)
          \<and> m1 * fst (velocity (obj (resolve_collision w this other oldPos wmd) this))
              + m2 * fst (velocity (obj (resolve_collision w this other oldPos wmd) other))
              = m1 * fst (velocity (obj w this)) + m2 * fst (velocity (obj w other)))
       \<and> (resolves_y w this other oldPos
            \<and> \<not> (ground_truthy (groundObject (obj w other)) \<and> wmd) \<longrightarrow>
            snd (velocity (obj (resolve_collision w this other oldPos wmd) this))
              = (m1 * snd (velocity (obj w this)) + m2 * snd (velocity (obj w other))) / (m1 + m2)
          \<and> snd (velocity (obj (resolve_collision w this other oldPos wmd) other))
              = (m1 * snd (velocity (obj w this)) + m2 * snd (velocity (obj w other))) / (m1 + m2)
          \<and> m1 * snd (velocity (obj (resolve_collision w this other oldPos wmd) this))
              + m2 * snd (velocity (obj (resolve_collision w this other oldPos wmd) other))
              = m1 * snd (velocity (obj w this)) + m2 * snd (velocity (obj w other)))
       \<and> fst (velocity (obj (update no_rand head_on_world 0) 0)) = 0
       \<and> fst (velocity (obj (update no_rand head_on_world 0) 1)) = 0"
proof -
  let ?w' = "resolve_collision w this other oldPos wmd"
  have nz: "m1 + m2 \<noteq> 0" "mass (obj w other) \<noteq> 0" using assms by auto
  have avg: "m1 * ((m1 * a + m2 * b) / (m1 + m2)) + m2 * ((m1 * a + m2 * b) / (m1 + m2)) = m1 * a + m2 * b" for a b
  proof -
    have "m1 * ((m1 * a + m2 * b) / (m1 + m2)) + m2 * ((m1 * a + m2 * b) / (m1 + m2))
        = (m1 + m2) * ((m1 * a + m2 * b) / (m1 + m2))" by (rule distrib_right[symmetric])
    also have "\<dots> = m1 * a + m2 * b" using nz by simp
    finally show ?thesis .
  qed
  note ry = resolve_y_keeps_x[OF assms(3-5)]
  have x: "resolves_x w this other oldPos \<Longrightarrow>
      fst (velocity (obj ?w' this)) = (m1 * fst (velocity (obj w this)) + m2 * fst (velocity (obj w other))) / (m1 + m2)
    \<and> fst (velocity (obj ?w' other)) = (m1 * fst (velocity (obj w this)) + m2 * fst (velocity (obj w other))) / (m1 + m2)"
    using assms(3-5) nz(2)
    by (simp add: m1_def m2_def resolve_collision_def Let_def resolve_x_velocity ry)
  have y: "resolves_y w this other oldPos \<Longrightarrow> \<not> (ground_truthy (groundObject (obj w other)) \<and> wmd) \<Longrightarrow>
      snd (velocity (obj ?w' this)) = (m1 * snd (velocity (obj w this)) + m2 * snd (velocity (obj w other))) / (m1 + m2)
    \<and> snd (velocity (obj ?w' other)) = (m1 * snd (velocity (obj w this)) + m2 * snd (velocity (obj w other))) / (m1 + m2)"
    using assms(3-5) nz(2)
    by (simp add: m1_def m2_def resolve_collision_def Let_def resolve_y_velocity resolve_x_keeps_y ry)
  have scen: "fst (velocity (obj (update no_rand head_on_world 0) 0)) = 0
       \<and> fst (velocity (obj (update no_rand head_on_world 0) 1)) = 0"
    by (simp add: head_on_world_def update_eval)
  show ?thesis using x y avg scen by auto
qed

theorem resolve_momentum_average_witness:
  "resolves_x head_on_world 0 1 (- 1, 0)
   \<and> fst (velocity (obj (resolve_collision head_on_world 0 1 (- 1, 0) False) 0)) = 0
   \<and> fst (velocity (obj (resolve_collision head_on_world 0 1 (- 1, 0) False) 1)) = 0"
proof -
  have w: "head_on_world = \<lparr> objects =
         [(newObject (0, 0))\<lparr>velocity := (1, 0), damping := 1, gravityScale := 0,
                            collideSolidObjects := True, isSolid := True\<rparr>,
         (newObject (3/2, 0))\<lparr>velocity := (- 1, 0), damping := 1, gravityScale := 0,
                            collideSolidObjects := True, isSolid := True\<rparr>],
       engineObjects = [0, 1], engineCollideObjects = [0, 1],
       tiles = initTileCollision (1, 1), frame = 0 \<rparr>"
    by (simp add: head_on_world_def newWorld_def upt_rec_numeral)
  have r: "resolves_x head_on_world 0 1 (- 1, 0)"
    by (simp add: w resolves_x_def smallStepUp_def isBlockedX_def isBlockedY_def obj_def
          newObject_def gravity_def abs_js_def)
  show ?thesis
    using r resolve_momentum_average [of 0 1 head_on_world "(- 1, 0)" False]
    by (simp add: w obj_def newObject_def)
qed



section \<open>Hierarchy: destroy\<close>

declare destroy.simps [simp del]

lemma modify_keeps_children:
  "(\<And>e. children (f e) = children e) \<Longrightarrow> children (obj (modify w i f) q) = children (obj w q)"
  by (simp add: obj_modify)

lemma modify_keeps_parent:
  "(\<And>e. parent (f e) = parent e) \<Longrightarrow> parent (obj (modify w i f) q) = parent (obj w q)"
  by (simp add: obj_modify)

lemma modify_keeps_destroyed:
  "(\<And>e. destroyed (f e) = destroyed e) \<Longrightarrow> destroyed (obj (modify w i f) q) = destroyed (obj w q)"
  by (simp add: obj_modify)

lemmas modify_keeps = modify_keeps_children modify_keeps_parent modify_keeps_destroyed

lemma length_removeChild [simp]: "length (objects (removeChild w p c)) = length (objects w)"
  by (simp add: removeChild_def Let_def)

lemma length_addChild [simp]: "length (objects (addChild w p c lp la)) = length (objects w)"
  by (simp add: addChild_def Let_def)

lemma length_detach [simp]: "length (objects (detach w x)) = length (objects w)"
  by (simp add: detach_def Let_def split: option.split)

lemma destroyed_removeChild [simp]: "destroyed (obj (removeChild w p c) q) = destroyed (obj w q)"
  by (simp add: removeChild_def Let_def modify_keeps)

lemma destroyed_detach:
  "x < length (objects w) \<Longrightarrow> destroyed (obj (detach w x) q) \<longleftrightarrow> destroyed (obj w q) \<or> q = x"
  by (auto simp: detach_def Let_def obj_modify split: option.split)

lemma set_splice_child: "set (splice_child cs c) \<subseteq> set cs"
  using set_remove1_subset[of c cs] by (auto simp: splice_child_def dest: in_set_butlastD)

lemma children_removeChild_eq:
  "children (obj (removeChild w p c) q)
     = (if q = p \<and> p < length (objects w) then splice_child (children (obj w p)) c
        else children (obj w q))"
  by (simp add: removeChild_def Let_def modify_keeps) (simp add: obj_modify)

lemma children_removeChild:
  "set (children (obj (removeChild w p c) q)) \<subseteq> set (children (obj w q))"
  using set_splice_child by (simp add: children_removeChild_eq)

lemma children_detach:
  "set (children (obj (detach w x) q)) \<subseteq> set (children (obj w q))"
proof -
  let ?w1 = "modify w x (\<lambda>e. e\<lparr>destroyed := True\<rparr>)"
  have a: "children (obj ?w1 q) = children (obj w q)" by (simp add: modify_keeps)
  show ?thesis
    using children_removeChild[of ?w1 _ x q] a
    by (simp add: detach_def Let_def split: option.split)
qed

lemma destroy_frame:
  "length (objects (destroy w x)) = length (objects w)
     \<and> (\<forall>q. destroyed (obj w q) \<longrightarrow> destroyed (obj (destroy w x) q))
     \<and> (\<forall>q. set (children (obj (destroy w x) q)) \<subseteq> set (children (obj w q)))"
  and destroy_children_frame:
  "length (objects (destroy_children w cs)) = length (objects w)
     \<and> (\<forall>q. destroyed (obj w q) \<longrightarrow> destroyed (obj (destroy_children w cs) q))
     \<and> (\<forall>q. set (children (obj (destroy_children w cs) q)) \<subseteq> set (children (obj w q)))"
proof (induction w x and w cs rule: destroy_destroy_children.induct)
  case (1 w this)
  show ?case
  proof (cases "this \<ge> length (objects w) \<or> destroyed (obj w this)")
    case True
    then show ?thesis by (simp add: destroy.simps)
  next
    case False
    let ?w1 = "detach w this"
    have eq: "destroy w this = destroy_children ?w1 (children (obj ?w1 this))"
      using False by (simp add: destroy.simps Let_def)
    note ih = 1[OF False refl]
    have d: "\<And>q. destroyed (obj w q) \<Longrightarrow> destroyed (obj ?w1 q)"
      using False by (simp add: destroyed_detach)
    show ?thesis
      unfolding eq using ih d children_detach[of w this] by (auto simp: subset_iff)
  qed
next
  case (2 w)
  then show ?case by simp
next
  case (3 w child cs)
  let ?w1 = "modify w child (\<lambda>e. e\<lparr>parent := None\<rparr>)"
  have a: "\<And>q. destroyed (obj ?w1 q) = destroyed (obj w q)"
    "\<And>q. children (obj ?w1 q) = children (obj w q)"
    by (simp_all add: obj_modify)
  show ?case using 3 a by (auto simp: subset_iff)
qed

lemma destroy_sets_flag:
  assumes "x < length (objects w)"
  shows "destroyed (obj (destroy w x) x)"
proof (cases "destroyed (obj w x)")
  case True
  then show ?thesis by (simp add: destroy.simps)
next
  case False
  have "destroyed (obj (detach w x) x)" using assms by (simp add: destroyed_detach)
  then show ?thesis
    using assms False destroy_children_frame[of "detach w x" "children (obj (detach w x) x)"]
    by (simp add: destroy.simps Let_def)
qed

text \<open>
  C10.  \<open>destroy\<close> on an object whose destroyed flag is set returns the world unchanged,
  and a second \<open>destroy\<close> of the same object returns the world the first one left: the
  object, its former parent's children list and all descendants are as after the first
  call.
\<close>

theorem destroy_idempotent:
  "(destroyed (obj w x) \<longrightarrow> destroy w x = w) \<and> destroy (destroy w x) x = destroy w x"
proof
  show "destroyed (obj w x) \<longrightarrow> destroy w x = w" by (simp add: destroy.simps)
  show "destroy (destroy w x) x = destroy w x"
  proof (cases "x < length (objects w)")
    case True
    from destroy_sets_flag[OF True] show ?thesis by (subst destroy.simps) simp
  next
    case False
    then show ?thesis by (simp add: destroy.simps)
  qed
qed

theorem destroy_idempotent_witness:
  "destroyed (obj (destroy pair_world 0) 0)
   \<and> destroy (destroy pair_world 0) 0 = destroy pair_world 0"
proof -
  have d: "destroyed (obj (destroy pair_world 0) 0)"
    by (rule destroy_sets_flag) (simp add: pair_world_def newWorld_def)
  show ?thesis using d destroy_idempotent [of "destroy pair_world 0" 0] by simp
qed


section \<open>Hierarchy: consistency of the links\<close>

lemma hier_invI:
  assumes "\<And>c p. c < length (objects w) \<Longrightarrow> parent (obj w c) = Some p
             \<Longrightarrow> p < length (objects w) \<and> c \<in> set (children (obj w p))"
    and "\<And>p c. p < length (objects w) \<Longrightarrow> c \<in> set (children (obj w p))
             \<Longrightarrow> c < length (objects w) \<and> (\<not> destroyed (obj w p) \<longrightarrow> parent (obj w c) = Some p)"
    and "\<And>p. p < length (objects w) \<Longrightarrow> distinct (children (obj w p))"
  shows "hier_inv w"
  using assms unfolding hier_inv_def by blast

lemma hier_invD1:
  "hier_inv w \<Longrightarrow> c < length (objects w) \<Longrightarrow> parent (obj w c) = Some p
     \<Longrightarrow> p < length (objects w) \<and> c \<in> set (children (obj w p))"
  unfolding hier_inv_def by blast

lemma hier_invD2:
  "hier_inv w \<Longrightarrow> p < length (objects w) \<Longrightarrow> c \<in> set (children (obj w p))
     \<Longrightarrow> c < length (objects w) \<and> (\<not> destroyed (obj w p) \<longrightarrow> parent (obj w c) = Some p)"
  unfolding hier_inv_def by blast

lemma hier_invD3:
  "hier_inv w \<Longrightarrow> p < length (objects w) \<Longrightarrow> distinct (children (obj w p))"
  unfolding hier_inv_def by blast

lemma parent_removeChild:
  "parent (obj (removeChild w p c) q)
     = (if q = c \<and> c < length (objects w) then None else parent (obj w q))"
  by (simp add: removeChild_def Let_def obj_modify)

lemma hier_inv_removeChild:
  assumes inv: "hier_inv w" and c: "c < length (objects w)" and par: "parent (obj w c) = Some p"
  shows "hier_inv (removeChild w p c)"
proof -
  from hier_invD1[OF inv c par] have p: "p < length (objects w)" and cin: "c \<in> set (children (obj w p))"
    by auto
  have sp: "splice_child (children (obj w p)) c = remove1 c (children (obj w p))"
    using cin by (simp add: splice_child_def)
  have dist: "distinct (children (obj w p))" using hier_invD3[OF inv p] .
  show ?thesis
  proof (rule hier_invI)
    fix c' q assume a: "c' < length (objects (removeChild w p c))" "parent (obj (removeChild w p c) c') = Some q"
    then have ne: "c' \<noteq> c" and pq: "parent (obj w c') = Some q"
      using c by (auto simp: parent_removeChild split: if_splits)
    from hier_invD1[OF inv _ pq] a have "q < length (objects w)" "c' \<in> set (children (obj w q))" by auto
    then show "q < length (objects (removeChild w p c)) \<and> c' \<in> set (children (obj (removeChild w p c) q))"
      using ne by (auto simp: children_removeChild_eq sp)
  next
    fix q c' assume a: "q < length (objects (removeChild w p c))" "c' \<in> set (children (obj (removeChild w p c) q))"
    then have q: "q < length (objects w)" by simp
    have cin': "c' \<in> set (children (obj w q))"
      using a(2) children_removeChild[of w p c q] by auto
    from hier_invD2[OF inv q cin'] have c': "c' < length (objects w)"
      and pp: "\<not> destroyed (obj w q) \<Longrightarrow> parent (obj w c') = Some q" by auto
    have "parent (obj (removeChild w p c) c') = Some q" if live: "\<not> destroyed (obj w q)"
    proof -
      have "c' \<noteq> c"
      proof
        assume e: "c' = c"
        with pp[OF live] par have "q = p" by simp
        with a(2) e p dist show False by (simp add: children_removeChild_eq sp)
      qed
      then show ?thesis using pp[OF live] by (simp add: parent_removeChild)
    qed
    then show "c' < length (objects (removeChild w p c))
        \<and> (\<not> destroyed (obj (removeChild w p c) q) \<longrightarrow> parent (obj (removeChild w p c) c') = Some q)"
      using c' by simp
  next
    fix q assume "q < length (objects (removeChild w p c))"
    then have "distinct (children (obj w q))" using hier_invD3[OF inv] by simp
    then show "distinct (children (obj (removeChild w p c) q))"
      using dist by (simp add: children_removeChild_eq sp)
  qed
qed

lemma hier_inv_set_destroyed:
  assumes inv: "hier_inv w"
  shows "hier_inv (modify w x (\<lambda>e. e\<lparr>destroyed := True\<rparr>))"
proof -
  let ?w1 = "modify w x (\<lambda>e. e\<lparr>destroyed := True\<rparr>)"
  have ch: "\<And>q. children (obj ?w1 q) = children (obj w q)"
    and pa: "\<And>q. parent (obj ?w1 q) = parent (obj w q)"
    by (simp_all add: modify_keeps)
  have de: "\<And>q. \<not> destroyed (obj ?w1 q) \<Longrightarrow> \<not> destroyed (obj w q)"
    by (simp add: obj_modify split: if_splits)
  show ?thesis
  proof (rule hier_invI)
    fix c p assume "c < length (objects ?w1)" "parent (obj ?w1 c) = Some p"
    then show "p < length (objects ?w1) \<and> c \<in> set (children (obj ?w1 p))"
      using hier_invD1[OF inv, of c p] by (simp add: ch pa)
  next
    fix p c assume "p < length (objects ?w1)" "c \<in> set (children (obj ?w1 p))"
    then show "c < length (objects ?w1) \<and> (\<not> destroyed (obj ?w1 p) \<longrightarrow> parent (obj ?w1 c) = Some p)"
      using hier_invD2[OF inv, of p c] de[of p] by (auto simp: ch pa)
  next
    fix p assume "p < length (objects ?w1)"
    then show "distinct (children (obj ?w1 p))" using hier_invD3[OF inv, of p] by (simp add: ch)
  qed
qed

lemma hier_inv_detach:
  assumes inv: "hier_inv w" and x: "x < length (objects w)"
  shows "hier_inv (detach w x)"
proof -
  let ?w1 = "modify w x (\<lambda>e. e\<lparr>destroyed := True\<rparr>)"
  have inv1: "hier_inv ?w1" using inv by (rule hier_inv_set_destroyed)
  show ?thesis
  proof (cases "parent (obj ?w1 x)")
    case None
    then show ?thesis using inv1 by (simp add: detach_def Let_def)
  next
    case (Some p)
    have "hier_inv (removeChild ?w1 p x)"
      by (rule hier_inv_removeChild[OF inv1 _ Some]) (simp add: x)
    then show ?thesis using Some by (simp add: detach_def Let_def)
  qed
qed

lemma hier_inv_clear_parent:
  assumes inv: "hier_inv w"
    and free: "\<And>q. q < length (objects w) \<Longrightarrow> \<not> destroyed (obj w q) \<Longrightarrow> c \<notin> set (children (obj w q))"
  shows "hier_inv (modify w c (\<lambda>e. e\<lparr>parent := None\<rparr>))"
proof -
  let ?w1 = "modify w c (\<lambda>e. e\<lparr>parent := None\<rparr>)"
  have ch: "\<And>q. children (obj ?w1 q) = children (obj w q)"
    and de: "\<And>q. destroyed (obj ?w1 q) = destroyed (obj w q)"
    by (simp_all add: modify_keeps)
  have pa: "\<And>q. parent (obj ?w1 q) = (if q = c \<and> c < length (objects w) then None else parent (obj w q))"
    by (simp add: obj_modify)
  show ?thesis
  proof (rule hier_invI)
    fix c' p assume a: "c' < length (objects ?w1)" "parent (obj ?w1 c') = Some p"
    then have "parent (obj w c') = Some p" by (simp add: pa split: if_splits)
    then show "p < length (objects ?w1) \<and> c' \<in> set (children (obj ?w1 p))"
      using hier_invD1[OF inv, of c' p] a(1) by (simp add: ch)
  next
    fix p c' assume a: "p < length (objects ?w1)" "c' \<in> set (children (obj ?w1 p))"
    then have p: "p < length (objects w)" and cin: "c' \<in> set (children (obj w p))"
      by (simp_all add: ch)
    from hier_invD2[OF inv p cin] have c': "c' < length (objects w)"
      and pp: "\<not> destroyed (obj w p) \<Longrightarrow> parent (obj w c') = Some p" by auto
    have "parent (obj ?w1 c') = Some p" if live: "\<not> destroyed (obj w p)"
    proof -
      have "c' \<noteq> c" using free[OF p live] cin by auto
      then show ?thesis using pp[OF live] by (simp add: pa)
    qed
    then show "c' < length (objects ?w1) \<and> (\<not> destroyed (obj ?w1 p) \<longrightarrow> parent (obj ?w1 c') = Some p)"
      using c' by (simp add: de)
  next
    fix p assume "p < length (objects ?w1)"
    then show "distinct (children (obj ?w1 p))" using hier_invD3[OF inv, of p] by (simp add: ch)
  qed
qed

lemma hier_inv_destroy:
  "hier_inv w \<Longrightarrow> hier_inv (destroy w x)"
  and hier_inv_destroy_children:
  "hier_inv w \<Longrightarrow>
     (\<forall>c \<in> set cs. \<forall>q < length (objects w). \<not> destroyed (obj w q) \<longrightarrow> c \<notin> set (children (obj w q)))
     \<Longrightarrow> hier_inv (destroy_children w cs)"
proof (induction w x and w cs rule: destroy_destroy_children.induct)
  case (1 w this)
  show ?case
  proof (cases "this \<ge> length (objects w) \<or> destroyed (obj w this)")
    case True
    then show ?thesis using 1(2) by (simp add: destroy.simps)
  next
    case False
    let ?w1 = "detach w this"
    have x: "this < length (objects w)" and live: "\<not> destroyed (obj w this)" using False by auto
    have eq: "destroy w this = destroy_children ?w1 (children (obj ?w1 this))"
      using False by (simp add: destroy.simps Let_def)
    have inv1: "hier_inv ?w1" using 1(2) x by (rule hier_inv_detach)
    have free: "\<forall>c \<in> set (children (obj ?w1 this)). \<forall>q < length (objects ?w1).
        \<not> destroyed (obj ?w1 q) \<longrightarrow> c \<notin> set (children (obj ?w1 q))"
    proof (intro ballI allI impI notI)
      fix c q assume c: "c \<in> set (children (obj ?w1 this))" and q: "q < length (objects ?w1)"
        and lq: "\<not> destroyed (obj ?w1 q)" and cq: "c \<in> set (children (obj ?w1 q))"
      have qx: "q \<noteq> this" and lq': "\<not> destroyed (obj w q)" using lq x by (auto simp: destroyed_detach)
      have "c \<in> set (children (obj w this))" "c \<in> set (children (obj w q))"
        using c cq children_detach[of w this] by auto
      then have "parent (obj w c) = Some this" "parent (obj w c) = Some q"
        using hier_invD2[OF 1(2) x] hier_invD2[OF 1(2), of q c] q live lq' by auto
      then show False using qx by simp
    qed
    show ?thesis unfolding eq by (rule 1(1)[OF False refl inv1 free])
  qed
next
  case (2 w)
  then show ?case by simp
next
  case (3 w child cs)
  let ?w1 = "modify w child (\<lambda>e. e\<lparr>parent := None\<rparr>)"
  let ?w2 = "destroy ?w1 child"
  have inv1: "hier_inv ?w1"
    using 3(3,4) by (intro hier_inv_clear_parent) auto
  have inv2: "hier_inv ?w2" using inv1 by (rule 3(1))
  have a: "\<And>q. destroyed (obj ?w1 q) = destroyed (obj w q)"
    "\<And>q. children (obj ?w1 q) = children (obj w q)"
    by (simp_all add: modify_keeps)
  have fr: "length (objects ?w2) = length (objects w)"
     "\<And>q. destroyed (obj w q) \<Longrightarrow> destroyed (obj ?w2 q)"
     "\<And>q. set (children (obj ?w2 q)) \<subseteq> set (children (obj w q))"
    using destroy_frame[of ?w1 child] a by auto
  have free: "\<forall>c \<in> set cs. \<forall>q < length (objects ?w2). \<not> destroyed (obj ?w2 q) \<longrightarrow> c \<notin> set (children (obj ?w2 q))"
  proof (intro ballI allI impI notI)
    fix c q assume c: "c \<in> set cs" and q: "q < length (objects ?w2)"
      and lq: "\<not> destroyed (obj ?w2 q)" and cq: "c \<in> set (children (obj ?w2 q))"
    have "\<not> destroyed (obj w q)" using lq fr(2) by blast
    moreover have "c \<in> set (children (obj w q))" using cq fr(3) by blast
    moreover have "q < length (objects w)" using q fr(1) by simp
    ultimately show False using 3(4) c by auto
  qed
  show ?case using 3(2)[OF inv2 free] by simp
qed

lemma children_addChild:
  "p < length (objects w) \<Longrightarrow>
   children (obj (addChild w p c lp la) q)
     = (if q = p then children (obj w p) @ [c] else children (obj w q))"
  by (simp add: addChild_def Let_def modify_keeps obj_modify)

lemma parent_addChild:
  "c < length (objects w) \<Longrightarrow>
   parent (obj (addChild w p c lp la) q) = (if q = c then Some p else parent (obj w q))"
  by (simp add: addChild_def Let_def obj_modify)

lemma destroyed_addChild [simp]:
  "destroyed (obj (addChild w p c lp la) q) = destroyed (obj w q)"
  by (simp add: addChild_def Let_def modify_keeps)

lemma hier_inv_addChild:
  assumes inv: "hier_inv w" and p: "p < length (objects w)" and c: "c < length (objects w)"
    and np: "parent (obj w c) = None" and nin: "c \<notin> set (children (obj w p))"
  shows "hier_inv (addChild w p c lp la)"
proof (rule hier_invI)
  let ?w1 = "addChild w p c lp la"
  fix c' q assume a: "c' < length (objects ?w1)" "parent (obj ?w1 c') = Some q"
  show "q < length (objects ?w1) \<and> c' \<in> set (children (obj ?w1 q))"
  proof (cases "c' = c")
    case True
    then show ?thesis using a p c by (simp add: parent_addChild children_addChild)
  next
    case False
    then have "parent (obj w c') = Some q" using a c by (simp add: parent_addChild)
    from hier_invD1[OF inv _ this] a(1)
    have "q < length (objects w)" "c' \<in> set (children (obj w q))" by simp_all
    then show ?thesis using p by (cases "q = p") (simp_all add: children_addChild)
  qed
next
  let ?w1 = "addChild w p c lp la"
  fix q c' assume a: "q < length (objects ?w1)" "c' \<in> set (children (obj ?w1 q))"
  then have q: "q < length (objects w)" by simp
  show "c' < length (objects ?w1) \<and> (\<not> destroyed (obj ?w1 q) \<longrightarrow> parent (obj ?w1 c') = Some q)"
  proof (cases "c' = c")
    case True
    have "q = p" if live: "\<not> destroyed (obj w q)"
    proof (rule ccontr)
      assume "q \<noteq> p"
      then have "c \<in> set (children (obj w q))" using a(2) True p by (simp add: children_addChild)
      from hier_invD2[OF inv q this] live np show False by simp
    qed
    then show ?thesis using True c by (auto simp: parent_addChild)
  next
    case False
    then have "c' \<in> set (children (obj w q))" using a(2) p by (simp add: children_addChild split: if_splits)
    from hier_invD2[OF inv q this] show ?thesis using False c by (simp add: parent_addChild)
  qed
next
  let ?w1 = "addChild w p c lp la"
  fix q assume "q < length (objects ?w1)"
  then show "distinct (children (obj ?w1 q))"
    using hier_invD3[OF inv, of q] nin p by (auto simp: children_addChild)
qed

lemma hier_inv_apply_op:
  assumes "hier_inv w" and "op_asserts w a"
  shows "hier_inv (apply_op w a)"
proof (cases a)
  case (AddChild p c lp la)
  then show ?thesis using assms hier_inv_addChild[of w p c lp la] by simp
next
  case (RemoveChild p c)
  then show ?thesis using assms hier_inv_removeChild[of w c p] by simp
next
  case (Destroy x)
  then show ?thesis using assms hier_inv_destroy[of w x] by simp
qed

lemma hier_inv_run_ops:
  "hier_inv w \<Longrightarrow> asserts_hold w ops \<Longrightarrow> hier_inv (run_ops w ops)"
proof (induction ops arbitrary: w)
  case Nil
  then show ?case by simp
next
  case (Cons a ops)
  then show ?case using hier_inv_apply_op[of w a] by simp
qed

lemma parent_detach:
  assumes "x < length (objects w)"
  shows "parent (obj (detach w x) q) = (if q = x then None else parent (obj w q))"
proof -
  let ?w1 = "modify w x (\<lambda>e. e\<lparr>destroyed := True\<rparr>)"
  have p1: "\<And>q. parent (obj ?w1 q) = parent (obj w q)" by (simp add: modify_keeps)
  show ?thesis
  proof (cases "parent (obj ?w1 x)")
    case None
    then show ?thesis using p1 by (simp add: detach_def Let_def)
  next
    case (Some p)
    then show ?thesis using p1 assms by (simp add: detach_def Let_def parent_removeChild)
  qed
qed

lemma destroy_clears_only:
  "\<forall>q < length (objects w). parent (obj (destroy w x) q) = parent (obj w q)
       \<or> parent (obj (destroy w x) q) = None"
  and destroy_children_clears:
  "(\<forall>q < length (objects w). parent (obj (destroy_children w cs) q) = parent (obj w q)
       \<or> parent (obj (destroy_children w cs) q) = None)
   \<and> (\<forall>c \<in> set cs. c < length (objects w) \<longrightarrow> parent (obj (destroy_children w cs) c) = None)"
proof (induction w x and w cs rule: destroy_destroy_children.induct)
  case (1 w this)
  show ?case
  proof (cases "this \<ge> length (objects w) \<or> destroyed (obj w this)")
    case True
    then show ?thesis by (simp add: destroy.simps)
  next
    case False
    let ?w1 = "detach w this"
    have eq: "destroy w this = destroy_children ?w1 (children (obj ?w1 this))"
      using False by (simp add: destroy.simps Let_def)
    have x: "this < length (objects w)" using False by simp
    note ih = 1[OF False refl]
    show ?thesis
    proof (intro allI impI)
      fix q assume q: "q < length (objects w)"
      then have "parent (obj (destroy w this) q) = parent (obj ?w1 q)
          \<or> parent (obj (destroy w this) q) = None"
        using ih unfolding eq by simp
      then show "parent (obj (destroy w this) q) = parent (obj w q)
          \<or> parent (obj (destroy w this) q) = None"
        using parent_detach[OF x, of q] by (auto split: if_splits)
    qed
  qed
next
  case (2 w)
  then show ?case by simp
next
  case (3 w child cs)
  let ?w1 = "modify w child (\<lambda>e. e\<lparr>parent := None\<rparr>)"
  let ?w2 = "destroy ?w1 child"
  have len: "length (objects ?w2) = length (objects w)"
    using destroy_frame[of ?w1 child] by simp
  have p1: "\<And>q. parent (obj ?w1 q) = (if q = child \<and> child < length (objects w) then None else parent (obj w q))"
    by (simp add: obj_modify)
  have s1: "\<And>q. q < length (objects w) \<Longrightarrow> parent (obj ?w2 q) = parent (obj ?w1 q) \<or> parent (obj ?w2 q) = None"
    using 3(1) by simp
  have s2: "\<And>q. q < length (objects w) \<Longrightarrow>
      parent (obj (destroy_children ?w2 cs) q) = parent (obj ?w2 q) \<or> parent (obj (destroy_children ?w2 cs) q) = None"
    and s3: "\<And>c. c \<in> set cs \<Longrightarrow> c < length (objects w) \<Longrightarrow> parent (obj (destroy_children ?w2 cs) c) = None"
    using 3(2) len by auto
  have r: "destroy_children w (child # cs) = destroy_children ?w2 cs" by simp
  show ?case
  proof (intro conjI allI impI ballI)
    fix q assume q: "q < length (objects w)"
    show "parent (obj (destroy_children w (child # cs)) q) = parent (obj w q)
        \<or> parent (obj (destroy_children w (child # cs)) q) = None"
      unfolding r using s1[OF q] s2[OF q] p1[of q] by (auto split: if_splits)
  next
    fix c assume c: "c \<in> set (child # cs)" and cl: "c < length (objects w)"
    show "parent (obj (destroy_children w (child # cs)) c) = None"
    proof (cases "c \<in> set cs")
      case True
      then show ?thesis unfolding r using s3 cl by simp
    next
      case False
      then have e: "c = child" using c by simp
      have "parent (obj ?w1 c) = None" using e cl by (simp add: p1)
      then have "parent (obj ?w2 c) = None" using s1[OF cl] by auto
      then show ?thesis unfolding r using s2[OF cl] by auto
    qed
  qed
qed

lemma destroy_clears_self_and_children:
  assumes inv: "hier_inv w" and x: "x < length (objects w)" and live: "\<not> destroyed (obj w x)"
    and c: "c = x \<or> c \<in> set (children (obj w x))"
  shows "parent (obj (destroy w x) c) = None"
proof -
  let ?w1 = "detach w x"
  have eq: "destroy w x = destroy_children ?w1 (children (obj ?w1 x))"
    using x live by (simp add: destroy.simps Let_def)
  have cl: "c < length (objects w)" using c x hier_invD2[OF inv x] by auto
  note dc = destroy_children_clears[of ?w1 "children (obj ?w1 x)"]
  show ?thesis
  proof (cases "c = x")
    case True
    have "parent (obj ?w1 c) = None" using True x by (simp add: parent_detach)
    then show ?thesis unfolding eq using dc cl by auto
  next
    case False
    then have cin: "c \<in> set (children (obj w x))" using c by simp
    have "c \<in> set (children (obj ?w1 x))"
    proof -
      let ?w0 = "modify w x (\<lambda>e. e\<lparr>destroyed := True\<rparr>)"
      have ch: "\<And>q. children (obj ?w0 q) = children (obj w q)" by (simp add: modify_keeps)
      have pa: "parent (obj ?w0 x) = parent (obj w x)" by (simp add: modify_keeps)
      show ?thesis
      proof (cases "parent (obj w x)")
        case None
        then show ?thesis using cin ch pa by (simp add: detach_def Let_def)
      next
        case (Some p)
        have xin: "x \<in> set (children (obj w p))" using hier_invD1[OF inv x Some] by simp
        have "c \<in> set (children (obj (removeChild ?w0 p x) x))"
          using cin False xin by (auto simp: children_removeChild_eq ch splice_child_def)
        then show ?thesis using Some pa by (simp add: detach_def Let_def)
      qed
    qed
    then show ?thesis unfolding eq using dc cl by auto
  qed
qed

text \<open>
  C4, amended.  Start from a world whose links are consistent and apply any sequence of
  \<open>addChild\<close>, \<open>removeChild\<close> and \<open>destroy\<close> calls, each on objects of the store and
  satisfying its \<open>ASSERT\<close>.  Then for all objects \<open>c\<close> and \<open>p\<close>: if \<open>c\<close> refers to
  \<open>p\<close> as its parent then \<open>c\<close> is in the children list of \<open>p\<close>; and if \<open>c\<close> is in the
  children list of \<open>p\<close> and \<open>p\<close> is not destroyed then \<open>c\<close> refers to \<open>p\<close> as its
  parent.  \<open>destroy\<close> writes parent references too, and only by clearing them: a
  \<open>destroy\<close> call in such a world leaves every parent reference as it was or empty, and
  when the destroyed object was not destroyed before, it leaves that object and every
  object in its children list without parent reference.
\<close>

theorem hierarchy_links_consistent:
  assumes "hier_inv w" and "asserts_hold w ops"
  shows "(\<forall>c p. c < length (objects (run_ops w ops)) \<and> p < length (objects (run_ops w ops)) \<longrightarrow>
           (parent (obj (run_ops w ops) c) = Some p \<longrightarrow> c \<in> set (children (obj (run_ops w ops) p)))
         \<and> (c \<in> set (children (obj (run_ops w ops) p)) \<and> \<not> destroyed (obj (run_ops w ops) p)
              \<longrightarrow> parent (obj (run_ops w ops) c) = Some p))
       \<and> (\<forall>x q. q < length (objects (run_ops w ops)) \<longrightarrow>
             parent (obj (destroy (run_ops w ops) x) q) = parent (obj (run_ops w ops) q)
           \<or> parent (obj (destroy (run_ops w ops) x) q) = None)
       \<and> (\<forall>x c. x < length (objects (run_ops w ops)) \<and> \<not> destroyed (obj (run_ops w ops) x)
               \<and> (c = x \<or> c \<in> set (children (obj (run_ops w ops) x)))
             \<longrightarrow> parent (obj (destroy (run_ops w ops) x) c) = None)"
proof (intro conjI allI impI)
  fix c p
  assume "c < length (objects (run_ops w ops)) \<and> p < length (objects (run_ops w ops))"
    and "parent (obj (run_ops w ops) c) = Some p"
  then show "c \<in> set (children (obj (run_ops w ops) p))"
    using hier_invD1[OF hier_inv_run_ops[OF assms], of c p] by simp
next
  fix c p
  assume "c < length (objects (run_ops w ops)) \<and> p < length (objects (run_ops w ops))"
    and "c \<in> set (children (obj (run_ops w ops) p)) \<and> \<not> destroyed (obj (run_ops w ops) p)"
  then show "parent (obj (run_ops w ops) c) = Some p"
    using hier_invD2[OF hier_inv_run_ops[OF assms], of p c] by simp
next
  fix x q assume "q < length (objects (run_ops w ops))"
  then show "parent (obj (destroy (run_ops w ops) x) q) = parent (obj (run_ops w ops) q)
           \<or> parent (obj (destroy (run_ops w ops) x) q) = None"
    using destroy_clears_only[of "run_ops w ops" x] by simp
next
  fix x c
  assume "x < length (objects (run_ops w ops)) \<and> \<not> destroyed (obj (run_ops w ops) x)
               \<and> (c = x \<or> c \<in> set (children (obj (run_ops w ops) x)))"
  then show "parent (obj (destroy (run_ops w ops) x) c) = None"
    using destroy_clears_self_and_children[OF hier_inv_run_ops[OF assms], of x c] by simp
qed

lemma pair_world_eq: "pair_world = \<lparr> objects = [newObject (0, 0), newObject (1, 0)],
   engineObjects = [0, 1], engineCollideObjects = [], tiles = initTileCollision (1, 1), frame = 0 \<rparr>"
  by (simp add: pair_world_def newWorld_def upt_rec_numeral)

lemmas hier_eval = addChild_def removeChild_def detach_def modify_def obj_def Let_def
  newObject_def splice_child_def destroy.simps

text \<open>
  C4, as stated, fails.  After \<open>addChild\<close> of object 1 to object 0, object 1 refers to
  object 0 as its parent; \<open>destroy\<close> of object 0 then clears that reference by direct
  assignment, and object 1 is still in the children list of object 0.  So the parent
  reference was changed by an operation other than \<open>addChild\<close> and \<open>removeChild\<close>, and
  the child is listed by an object it does not refer to.
\<close>

theorem destroy_clears_child_parent_counterexample:
  "asserts_hold pair_world [AddChild 0 1 (0, 0) 0, Destroy 0]
   \<and> parent (obj (run_ops pair_world [AddChild 0 1 (0, 0) 0]) 1) = Some 0
   \<and> parent (obj (run_ops pair_world [AddChild 0 1 (0, 0) 0, Destroy 0]) 1) = None
   \<and> children (obj (run_ops pair_world [AddChild 0 1 (0, 0) 0, Destroy 0]) 0) = [1]"
  by (simp add: pair_world_eq hier_eval)

lemma hier_inv_pair: "hier_inv pair_world"
  by (simp add: hier_inv_def pair_world_eq obj_def newObject_def less_Suc_eq nth_Cons')

theorem hierarchy_links_consistent_witness:
  "asserts_hold pair_world [AddChild 0 1 (0, 0) 0, Destroy 1]
   \<and> parent (obj (run_ops pair_world [AddChild 0 1 (0, 0) 0, Destroy 1]) 1) = None
   \<and> 1 \<notin> set (children (obj (run_ops pair_world [AddChild 0 1 (0, 0) 0, Destroy 1]) 0))
   \<and> parent (obj (run_ops pair_world [AddChild 0 1 (0, 0) 0]) 1) = Some 0
   \<and> parent (obj (destroy (run_ops pair_world [AddChild 0 1 (0, 0) 0]) 0) 1) = None"
proof -
  let ?ops = "[AddChild 0 1 (0, 0) 0, Destroy 1]"
  have a: "asserts_hold pair_world ?ops"
    by (simp add: pair_world_eq hier_eval)
  have a1: "asserts_hold pair_world [AddChild 0 1 (0, 0) 0]"
    by (simp add: pair_world_eq hier_eval)
  have l: "length (objects (run_ops pair_world ?ops)) = 2"
    and p: "parent (obj (run_ops pair_world ?ops) 1) = None"
    and d: "\<not> destroyed (obj (run_ops pair_world ?ops) 0)"
    by (simp_all add: pair_world_eq hier_eval)
  have l1: "length (objects (run_ops pair_world [AddChild 0 1 (0, 0) 0])) = 2"
    and d1: "\<not> destroyed (obj (run_ops pair_world [AddChild 0 1 (0, 0) 0]) 0)"
    and c1: "children (obj (run_ops pair_world [AddChild 0 1 (0, 0) 0]) 0) = [1]"
    and p1: "parent (obj (run_ops pair_world [AddChild 0 1 (0, 0) 0]) 1) = Some 0"
    by (simp_all add: pair_world_eq hier_eval)
  note t = hierarchy_links_consistent[OF hier_inv_pair a]
  note t1 = hierarchy_links_consistent[OF hier_inv_pair a1]
  have "1 \<notin> set (children (obj (run_ops pair_world ?ops) 0))"
    using t[THEN conjunct1, THEN spec, of 1, THEN spec, of 0] l p d by auto
  moreover have "parent (obj (destroy (run_ops pair_world [AddChild 0 1 (0, 0) 0]) 0) 1) = None"
    using t1[THEN conjunct2, THEN conjunct2, THEN spec, of 0, THEN spec, of 1] l1 d1 c1 by auto
  ultimately show ?thesis using a p p1 by simp
qed



section \<open>The tick\<close>

lemma emitter_world_eq: "emitter_world =
   \<lparr> objects = [(newObject (5, 5))\<lparr>children := [1, 2]\<rparr>,
                (newObject (0, 0))\<lparr>parent := Some 0, localPos := (1, 0)\<rparr>,
                (newObject (0, 0))\<lparr>parent := Some 0, localPos := (2, 0)\<rparr>],
     engineObjects = [0, 1, 2], engineCollideObjects = [],
     tiles = initTileCollision (1, 1), frame = 0 \<rparr>"
  by (simp add: emitter_world_def newWorld_def addChild_def modify_def Let_def upt_rec_numeral newObject_def)

lemmas tick_eval = engineUpdateObjects_def emitter_update_def update_parented_def rotate_vec_def
  getMirrorSign_def update_eval hier_eval eval_nat_numeral

lemma engineUpdateObjects_registries:
  assumes "engineUpdateObjects fuel upd w = Some w'"
  shows "\<forall>ob \<in> set (engineObjects w'). \<not> destroyed (obj w' ob)"
    and "\<forall>ob \<in> set (engineCollideObjects w'). \<not> destroyed (obj w' ob)"
  using assms by (auto simp: engineUpdateObjects_def obj_def split: option.splits)

text \<open>
  C9.  One tick on the world of the object 0 with the children 1 and 2, where the update
  of child 1 destroys child 1.  \<open>destroy\<close> removes child 1 from the children array of
  object 0 while \<open>updateObject\<close> iterates that array, so the iteration ends before it
  reaches child 2: after the tick child 2 is not destroyed and is still registered, but
  its update has not run (it is unchanged, where its update would have moved it to
  (7, 5)).
\<close>

theorem tick_skips_sibling_of_destroyed_child:
  "(case engineUpdateObjects 12 emitter_update emitter_world of
      None \<Rightarrow> False
    | Some w' \<Rightarrow>
        destroyed (obj w' 1) \<and> \<not> destroyed (obj w' 2)
      \<and> engineObjects w' = [0, 2]
      \<and> children (obj w' 0) = [2]
      \<and> obj w' 2 = obj emitter_world 2)
   \<and> pos (obj (update no_rand emitter_world 2) 2) = (7, 5)
   \<and> pos (obj emitter_world 2) = (0, 0)"
  by (simp add: emitter_world_eq tick_eval)

end
